theory Spec2Isabelle
  imports Main "HOL-Library.Word"
begin

section \<open>Data model\<close>

text \<open>
  The fake schema registry of \<^verbatim>\<open>package schemaregistry\<close>: the store
  \<^verbatim>\<open>fakeRegistry\<close> and the HTTP handlers of \<^verbatim>\<open>fakeServer\<close>.
\<close>

text \<open>
  Modelled from the spec: the types \<^verbatim>\<open>sr.Schema\<close> and \<^verbatim>\<open>sr.SubjectSchema\<close> are
  declared in the client library, outside the source. A schema is "a byte/string
  payload plus a type tag"; a record is \<^verbatim>\<open>{subject, version, id, schema}\<close>. The field
  \<open>schema\<close> is the embedded \<^verbatim>\<open>Schema\<close> struct of the Go record.
\<close>

record Schema =
  Schema :: string
  Type :: int

record SubjectSchema =
  Subject :: string
  Version :: int
  ID :: int
  schema :: Schema

type_synonym uint64 = "64 word"

text \<open>
  A Go slice is either \<^verbatim>\<open>nil\<close> or a sequence of elements. \<^verbatim>\<open>append\<close> to a nil slice
  gives a slice that is not nil; \<^verbatim>\<open>len\<close> of a nil slice is 0. The difference shows
  only where a slice is encoded as JSON.
\<close>

datatype 'a slice = NilSlice | Slice "'a list"

fun append_slice :: "'a slice \<Rightarrow> 'a \<Rightarrow> 'a slice" where
  "append_slice NilSlice x = Slice [x]"
| "append_slice (Slice xs) x = Slice (xs @ [x])"

fun elems :: "'a slice \<Rightarrow> 'a list" where
  "elems NilSlice = []"
| "elems (Slice xs) = xs"

definition len :: "'a slice \<Rightarrow> int" where
  "len s = int (length (elems s))"

text \<open>
  The store. \<open>schemas\<close> is ranged over and appended to only, so it is a list (the nil
  slice of the zero value and the empty slice made by \<open>init\<close> are both the empty list).
  \<open>fingerprintIDCache\<close> is the map from fingerprint to id (the nil map of the zero
  value reads as the empty map, and every write comes after \<open>init\<close> has made the map).
  \<open>initOnce\<close> records whether the \<^verbatim>\<open>sync.Once\<close> has fired. The mutex has no sequential
  content.

  Go's \<^verbatim>\<open>int\<close> is modelled by \<open>int\<close>: the counter \<open>idSequence\<close> and every version are
  bounded by the number of stored records (\<open>run_idSequence_bound\<close>, \<open>run_version_bound\<close> below),
  which is the length of a slice and so never leaves the range of \<^verbatim>\<open>int\<close>.
\<close>

record fakeRegistry =
  schemas :: "SubjectSchema list"
  fingerprintIDCache :: "uint64 \<rightharpoonup> int"
  idSequence :: int
  initOnce :: bool

text \<open>The zero value \<^verbatim>\<open>fakeRegistry{}\<close>, as \<^verbatim>\<open>newFakeServer\<close> creates it.\<close>

definition zeroRegistry :: fakeRegistry where
  "zeroRegistry =
     \<lparr>schemas = [], fingerprintIDCache = Map.empty, idSequence = 0, initOnce = False\<rparr>"

section \<open>The registry store\<close>

definition init :: "fakeRegistry \<Rightarrow> fakeRegistry" where
  "init fr =
     (if initOnce fr then fr
      else fr\<lparr>schemas := [], fingerprintIDCache := Map.empty, initOnce := True\<rparr>)"

definition nextID :: "fakeRegistry \<Rightarrow> int \<times> fakeRegistry" where
  "nextID fr = (idSequence fr + 1, fr\<lparr>idSequence := idSequence fr + 1\<rparr>)"

definition findBySubject :: "fakeRegistry \<Rightarrow> string \<Rightarrow> SubjectSchema slice" where
  "findBySubject fr subject =
     foldl (\<lambda>sss ss. if Subject ss = subject then append_slice sss ss else sss)
       NilSlice (schemas fr)"

definition nextVersion :: "fakeRegistry \<Rightarrow> string \<Rightarrow> int" where
  "nextVersion fr subject = len (findBySubject fr subject) + 1"

fun findOneByID_loop :: "SubjectSchema list \<Rightarrow> int \<Rightarrow> Schema option" where
  "findOneByID_loop [] i = None"
| "findOneByID_loop (ss # rest) i =
     (if ID ss = i then Some (schema ss) else findOneByID_loop rest i)"

definition findOneByID :: "fakeRegistry \<Rightarrow> int \<Rightarrow> Schema option" where
  "findOneByID fr i = findOneByID_loop (schemas fr) i"

definition findAllByID :: "fakeRegistry \<Rightarrow> int \<Rightarrow> SubjectSchema slice" where
  "findAllByID fr i =
     foldl (\<lambda>sss ss. if ID ss = i then append_slice sss ss else sss)
       NilSlice (schemas fr)"

fun findBySubjectID_loop :: "SubjectSchema list \<Rightarrow> string \<Rightarrow> int \<Rightarrow> SubjectSchema option" where
  "findBySubjectID_loop [] subject i = None"
| "findBySubjectID_loop (ss # rest) subject i =
     (if Subject ss = subject \<and> ID ss = i then Some ss
      else findBySubjectID_loop rest subject i)"

definition findBySubjectID :: "fakeRegistry \<Rightarrow> string \<Rightarrow> int \<Rightarrow> SubjectSchema option" where
  "findBySubjectID fr subject i = findBySubjectID_loop (schemas fr) subject i"

fun findBySubjectVersion_loop ::
  "SubjectSchema list \<Rightarrow> string \<Rightarrow> int \<Rightarrow> SubjectSchema option" where
  "findBySubjectVersion_loop [] subject v = None"
| "findBySubjectVersion_loop (ss # rest) subject v =
     (if Subject ss = subject \<and> Version ss = v then Some ss
      else findBySubjectVersion_loop rest subject v)"

definition findBySubjectVersion ::
  "fakeRegistry \<Rightarrow> string \<Rightarrow> int \<Rightarrow> SubjectSchema option" where
  "findBySubjectVersion fr subject v = findBySubjectVersion_loop (schemas fr) subject v"

text \<open>
  \<^verbatim>\<open>CreateSchema\<close>. The fingerprint function \<^verbatim>\<open>internal.Rabin\<close> is outside the source
  and is the parameter \<open>Rabin\<close>. The \<^verbatim>\<open>ok\<close> of the inner lookup shadows the outer one,
  so after a known fingerprint with no record for the subject the outer \<^verbatim>\<open>ok\<close> is
  still true and the cached id is kept. A lookup with the comma-ok idiom is an option.
\<close>

definition CreateSchema ::
  "(string \<Rightarrow> uint64) \<Rightarrow> fakeRegistry \<Rightarrow> string \<Rightarrow> Schema \<Rightarrow> SubjectSchema \<times> fakeRegistry" where
  "CreateSchema Rabin fr0 subject sch =
     (let fr = init fr0;
          fp = Rabin (Schema sch);
          cached = fingerprintIDCache fr fp
      in case (case cached of
                 Some i \<Rightarrow> findBySubjectID fr subject i
               | None \<Rightarrow> None) of
           Some ss \<Rightarrow> (ss, fr)
         | None \<Rightarrow>
             (let (i, fr1) = (case cached of Some i \<Rightarrow> (i, fr) | None \<Rightarrow> nextID fr);
                  version = nextVersion fr1 subject;
                  ss = \<lparr>Subject = subject, Version = version, ID = i, schema = sch\<rparr>
              in (ss, fr1\<lparr>schemas := schemas fr1 @ [ss],
                         fingerprintIDCache := (fingerprintIDCache fr1)(fp \<mapsto> i)\<rparr>)))"

definition SchemaByID :: "fakeRegistry \<Rightarrow> int \<Rightarrow> Schema option \<times> fakeRegistry" where
  "SchemaByID fr0 i = (let fr = init fr0 in (findOneByID fr i, fr))"

definition SchemaBySubjectVersion ::
  "fakeRegistry \<Rightarrow> string \<Rightarrow> int \<Rightarrow> SubjectSchema option \<times> fakeRegistry" where
  "SchemaBySubjectVersion fr0 subject v =
     (let fr = init fr0 in (findBySubjectVersion fr subject v, fr))"

definition SubjectVersionsByID :: "fakeRegistry \<Rightarrow> int \<Rightarrow> SubjectSchema slice \<times> fakeRegistry" where
  "SubjectVersionsByID fr0 i = (let fr = init fr0 in (findAllByID fr i, fr))"

text \<open>
  The four public operations as calls, and the store after a sequence of calls on the
  zero value. Each call runs to its end before the next one starts.
\<close>

datatype call =
    CallCreateSchema string Schema
  | CallSchemaByID int
  | CallSchemaBySubjectVersion string int
  | CallSubjectVersionsByID int

fun step :: "(string \<Rightarrow> uint64) \<Rightarrow> fakeRegistry \<Rightarrow> call \<Rightarrow> fakeRegistry" where
  "step Rabin fr (CallCreateSchema subject sch) = snd (CreateSchema Rabin fr subject sch)"
| "step Rabin fr (CallSchemaByID i) = snd (SchemaByID fr i)"
| "step Rabin fr (CallSchemaBySubjectVersion subject v) = snd (SchemaBySubjectVersion fr subject v)"
| "step Rabin fr (CallSubjectVersionsByID i) = snd (SubjectVersionsByID fr i)"

definition run :: "(string \<Rightarrow> uint64) \<Rightarrow> call list \<Rightarrow> fakeRegistry" where
  "run Rabin calls = foldl (step Rabin) zeroRegistry calls"

section \<open>The protocol handler\<close>

text \<open>
  \<^verbatim>\<open>strconv.Atoi\<close> of the Go library, for the 64-bit \<^verbatim>\<open>int\<close>: an optional sign, then
  at least one decimal digit and nothing else; a value outside the range of \<^verbatim>\<open>int\<close>
  is an error too. The error is the \<^verbatim>\<open>*strconv.NumError\<close> with its function name, its
  input and its cause. \<open>ParseUint_loop\<close> is the digit loop: it stops at the first
  byte that is not a digit, or at the first digit that overflows 64 bits.
\<close>

datatype num_err = ErrSyntax | ErrRange

datatype go_error =
    New string
  | Errorf string go_error
  | NumError string string num_err
  | LibError string

definition isDigit :: "char \<Rightarrow> bool" where
  "isDigit ch \<longleftrightarrow> 48 \<le> (of_char ch :: nat) \<and> (of_char ch :: nat) \<le> 57"

fun ParseUint_loop :: "nat \<Rightarrow> string \<Rightarrow> num_err + nat" where
  "ParseUint_loop n [] = Inr n"
| "ParseUint_loop n (ch # rest) =
     (if \<not> isDigit ch then Inl ErrSyntax
      else if 2 ^ 64 \<le> n * 10 + (of_char ch - 48) then Inl ErrRange
      else ParseUint_loop (n * 10 + (of_char ch - 48)) rest)"

definition Atoi :: "string \<Rightarrow> go_error + int" where
  "Atoi s =
     (case s of
        [] \<Rightarrow> Inl (NumError ''Atoi'' s ErrSyntax)
      | c # cs \<Rightarrow>
          (let neg = (c = CHR ''-'');
               ds = (if c = CHR ''-'' \<or> c = CHR ''+'' then cs else s)
           in if ds = [] then Inl (NumError ''Atoi'' s ErrSyntax)
              else case ParseUint_loop 0 ds of
                     Inl cause \<Rightarrow> Inl (NumError ''Atoi'' s cause)
                   | Inr un \<Rightarrow>
                       if \<not> neg \<and> 2 ^ 63 \<le> un then Inl (NumError ''Atoi'' s ErrRange)
                       else if neg \<and> 2 ^ 63 < un then Inl (NumError ''Atoi'' s ErrRange)
                       else Inr (if neg then - int un else int un)))"

text \<open>\<^verbatim>\<open>strings.Split(s, "/")\<close>: the pieces between the separators, one more than there
  are separators.\<close>

fun Split :: "string \<Rightarrow> char \<Rightarrow> string list" where
  "Split [] sep = [[]]"
| "Split (ch # rest) sep =
     (if ch = sep then [] # Split rest sep
      else (case Split rest sep of
              t # ts \<Rightarrow> (ch # t) # ts
            | [] \<Rightarrow> [[ch]]))"

text \<open>Indexing a slice out of range panics: \<open>None\<close>.\<close>

definition index :: "'a list \<Rightarrow> nat \<Rightarrow> 'a option" where
  "index xs i = (if i < length xs then Some (xs ! i) else None)"

text \<open>
  JSON documents. \<open>JErrorText e\<close> is the JSON string that holds \<^verbatim>\<open>e.Error()\<close>, the
  text of the Go error \<open>e\<close>.
\<close>

datatype json =
    JNull
  | JNumber int
  | JString string
  | JErrorText go_error
  | JArray "json list"
  | JObject "(string \<times> json) list"

text \<open>
  What lies outside the source and is taken as given: the fingerprint function
  \<^verbatim>\<open>internal.Rabin\<close>, and the JSON encoding that the client library gives its two types
  (an encoder may fail, as \<^verbatim>\<open>json.Marshal\<close> may).
\<close>

record externals =
  rabin :: "string \<Rightarrow> uint64"
  marshalSchema :: "Schema \<Rightarrow> go_error + json"
  marshalSubjectSchema :: "SubjectSchema \<Rightarrow> go_error + json"

text \<open>The values the handlers pass to \<^verbatim>\<open>fs.json\<close>.\<close>

datatype go_value =
    IdMap int
  | ASchema Schema
  | ASubjectSchema SubjectSchema
  | SubjectSchemas "SubjectSchema slice"

fun Marshal_elems :: "('a \<Rightarrow> go_error + json) \<Rightarrow> 'a list \<Rightarrow> go_error + json list" where
  "Marshal_elems enc [] = Inr []"
| "Marshal_elems enc (x # xs) =
     (case enc x of
        Inl err \<Rightarrow> Inl err
      | Inr j \<Rightarrow> (case Marshal_elems enc xs of
                    Inl err \<Rightarrow> Inl err
                  | Inr js \<Rightarrow> Inr (j # js)))"

text \<open>\<^verbatim>\<open>json.Marshal\<close>: a map as an object, a nil slice as \<^verbatim>\<open>null\<close>, any other slice as
  an array.\<close>

fun Marshal :: "externals \<Rightarrow> go_value \<Rightarrow> go_error + json" where
  "Marshal lib (IdMap i) = Inr (JObject [(''id'', JNumber i)])"
| "Marshal lib (ASchema s) = marshalSchema lib s"
| "Marshal lib (ASubjectSchema ss) = marshalSubjectSchema lib ss"
| "Marshal lib (SubjectSchemas NilSlice) = Inr JNull"
| "Marshal lib (SubjectSchemas (Slice sss)) =
     (case Marshal_elems (marshalSubjectSchema lib) sss of
        Inl err \<Rightarrow> Inl err
      | Inr js \<Rightarrow> Inr (JArray js))"

text \<open>A request as the handlers read it: the method, the escaped path, and what
  decoding the body as a \<^verbatim>\<open>sr.Schema\<close> gives (the decoder's error, or the schema).\<close>

record Request =
  Method :: string
  EscapedPath :: string
  Body :: "go_error + Schema"

datatype payload = JSONBody json | TextBody string

record Response =
  status :: int
  body :: payload

definition errorCodeSubjectNotFound :: int where
  "errorCodeSubjectNotFound = 40401"

definition errorCodeSchemaNotFound :: int where
  "errorCodeSchemaNotFound = 40403"

definition StatusOK :: int where
  "StatusOK = 200"

definition StatusNotFound :: int where
  "StatusNotFound = 404"

definition StatusInternalServerError :: int where
  "StatusInternalServerError = 500"

text \<open>\<^verbatim>\<open>http.NotFound\<close>: status 404 and a plain text body.\<close>

definition NotFound :: Response where
  "NotFound = \<lparr>status = StatusNotFound, body = TextBody (''404 page not found'' @ [CHR 0x0A])\<rparr>"

definition errorWithCode :: "int \<Rightarrow> int \<Rightarrow> go_error \<Rightarrow> Response" where
  "errorWithCode st code err =
     \<lparr>status = st,
      body = JSONBody (JObject [(''error_code'', JNumber code), (''message'', JErrorText err)])\<rparr>"

definition fs_error :: "int \<Rightarrow> go_error \<Rightarrow> Response" where
  "fs_error st err = errorWithCode st 50001 err"

text \<open>\<^verbatim>\<open>fs.json\<close>: a write with no status set before it answers 200.\<close>

definition fs_json :: "externals \<Rightarrow> go_value \<Rightarrow> Response" where
  "fs_json lib v =
     (case Marshal lib v of
        Inl err \<Rightarrow> fs_error StatusInternalServerError err
      | Inr b \<Rightarrow> \<lparr>status = StatusOK, body = JSONBody b\<rparr>)"

definition createSchema ::
  "externals \<Rightarrow> fakeRegistry \<Rightarrow> Request \<Rightarrow> (Response \<times> fakeRegistry) option" where
  "createSchema lib fr r =
     (if Method r \<noteq> ''POST'' then Some (NotFound, fr)
      else case Body r of
             Inl err \<Rightarrow> Some (fs_error StatusInternalServerError err, fr)
           | Inr s \<Rightarrow>
               (case index (Split (EscapedPath r) CHR ''/'') 2 of
                  None \<Rightarrow> None
                | Some subject \<Rightarrow>
                    (let (ss, fr') = CreateSchema (rabin lib) fr subject s
                     in Some (fs_json lib (IdMap (ID ss)), fr'))))"

definition schemaBySubjectVersion ::
  "externals \<Rightarrow> fakeRegistry \<Rightarrow> Request \<Rightarrow> (Response \<times> fakeRegistry) option" where
  "schemaBySubjectVersion lib fr r =
     (if Method r \<noteq> ''GET'' then Some (NotFound, fr)
      else case index (Split (EscapedPath r) CHR ''/'') 4 of
             None \<Rightarrow> None
           | Some tok \<Rightarrow>
               (case Atoi tok of
                  Inl err \<Rightarrow>
                    Some (fs_error StatusInternalServerError
                            (Errorf ''invalid schema version: '' err), fr)
                | Inr v \<Rightarrow>
                    (case index (Split (EscapedPath r) CHR ''/'') 2 of
                       None \<Rightarrow> None
                     | Some subject \<Rightarrow>
                         (case SchemaBySubjectVersion fr subject v of
                            (None, fr') \<Rightarrow>
                              Some (errorWithCode StatusNotFound errorCodeSubjectNotFound
                                      (New ''subject not found''), fr')
                          | (Some ss, fr') \<Rightarrow>
                              Some (fs_json lib (ASubjectSchema ss), fr')))))"

definition schemaByID ::
  "externals \<Rightarrow> fakeRegistry \<Rightarrow> Request \<Rightarrow> (Response \<times> fakeRegistry) option" where
  "schemaByID lib fr r =
     (if Method r \<noteq> ''GET'' then Some (NotFound, fr)
      else case index (Split (EscapedPath r) CHR ''/'') 3 of
             None \<Rightarrow> None
           | Some tok \<Rightarrow>
               (case Atoi tok of
                  Inl err \<Rightarrow>
                    Some (fs_error StatusInternalServerError
                            (Errorf ''invalid schema ID: '' err), fr)
                | Inr i \<Rightarrow>
                    (case SchemaByID fr i of
                       (None, fr') \<Rightarrow>
                         Some (errorWithCode StatusNotFound errorCodeSchemaNotFound
                                 (New ''schema not found''), fr')
                     | (Some s, fr') \<Rightarrow> Some (fs_json lib (ASchema s), fr'))))"

definition subjectVersionsByID ::
  "externals \<Rightarrow> fakeRegistry \<Rightarrow> Request \<Rightarrow> (Response \<times> fakeRegistry) option" where
  "subjectVersionsByID lib fr r =
     (if Method r \<noteq> ''GET'' then Some (NotFound, fr)
      else case index (Split (EscapedPath r) CHR ''/'') 3 of
             None \<Rightarrow> None
           | Some tok \<Rightarrow>
               (case Atoi tok of
                  Inl err \<Rightarrow>
                    Some (fs_error StatusInternalServerError
                            (Errorf ''invalid schema ID: '' err), fr)
                | Inr i \<Rightarrow>
                    (let (sss, fr') = SubjectVersionsByID fr i
                     in Some (fs_json lib (SubjectSchemas sss), fr'))))"

text \<open>
  The two handlers that \<^verbatim>\<open>newFakeServer\<close> registers, for the patterns
  \<^verbatim>\<open>/schemas/ids/\<close> and \<^verbatim>\<open>/subjects/\<close>: each branches on the number of path tokens.
\<close>

definition schemasIdsHandler ::
  "externals \<Rightarrow> fakeRegistry \<Rightarrow> Request \<Rightarrow> (Response \<times> fakeRegistry) option" where
  "schemasIdsHandler lib fr r =
     (let tokens = Split (EscapedPath r) CHR ''/''
      in if length tokens = 4 then schemaByID lib fr r
         else if length tokens = 5 \<and> tokens ! 4 = ''versions'' then subjectVersionsByID lib fr r
         else Some (NotFound, fr))"

definition subjectsHandler ::
  "externals \<Rightarrow> fakeRegistry \<Rightarrow> Request \<Rightarrow> (Response \<times> fakeRegistry) option" where
  "subjectsHandler lib fr r =
     (let tokens = Split (EscapedPath r) CHR ''/''
      in if length tokens = 4 \<and> tokens ! 3 = ''versions'' then createSchema lib fr r
         else if length tokens = 5 \<and> tokens ! 3 = ''versions'' then schemaBySubjectVersion lib fr r
         else Some (NotFound, fr))"

section \<open>Reachable stores\<close>

text \<open>The records of one subject, in insertion order.\<close>

definition recs :: "fakeRegistry \<Rightarrow> string \<Rightarrow> SubjectSchema list" where
  "recs fr s = filter (\<lambda>r. Subject r = s) (schemas fr)"

text \<open>
  What every store reached from the zero value satisfies: before \<open>init\<close> has run the
  collections are empty; cached ids lie in \<open>1..idSequence\<close> and no two fingerprints
  share one; every record's content has its id cached; each subject's versions count
  up from 1 in insertion order; a subject holds an id at most once; the counter never
  exceeds the number of records.
\<close>

definition store_inv :: "(string \<Rightarrow> uint64) \<Rightarrow> fakeRegistry \<Rightarrow> bool" where
  "store_inv Rabin fr \<longleftrightarrow>
     (\<not> initOnce fr \<longrightarrow> schemas fr = [] \<and> fingerprintIDCache fr = Map.empty) \<and>
     (\<forall>k i. fingerprintIDCache fr k = Some i \<longrightarrow> 1 \<le> i \<and> i \<le> idSequence fr) \<and>
     (\<forall>k k' i. fingerprintIDCache fr k = Some i \<and> fingerprintIDCache fr k' = Some i \<longrightarrow> k = k') \<and>
     (\<forall>r \<in> set (schemas fr). fingerprintIDCache fr (Rabin (Schema (schema r))) = Some (ID r)) \<and>
     (\<forall>s. map Version (recs fr s) = map int [1..<Suc (length (recs fr s))]) \<and>
     distinct (map (\<lambda>r. (Subject r, ID r)) (schemas fr)) \<and>
     0 \<le> idSequence fr \<and> idSequence fr \<le> int (length (schemas fr))"

text \<open>
  A stand-in for the fingerprint function and a schema, to run the model on concrete
  inputs; the theorems below hold for every fingerprint function.
\<close>

definition sampleRabin :: "string \<Rightarrow> uint64" where
  "sampleRabin s = of_nat (length s)"

definition stringSchema :: Schema where
  "stringSchema = \<lparr>Schema = ''string'', Type = 0\<rparr>"

text \<open>The content texts that the calls register under one subject, in call order.\<close>

fun registrations :: "string \<Rightarrow> call list \<Rightarrow> string list" where
  "registrations s [] = []"
| "registrations s (CallCreateSchema subject sch # rest) =
     (if subject = s then Schema sch # registrations s rest else registrations s rest)"
| "registrations s (CallSchemaByID i # rest) = registrations s rest"
| "registrations s (CallSchemaBySubjectVersion subject v # rest) = registrations s rest"
| "registrations s (CallSubjectVersionsByID i # rest) = registrations s rest"

text \<open>The registrations made by a sequence of calls on a store: each schema passed to
  \<open>CreateSchema\<close> with the record returned for it, in call order.\<close>

fun returned ::
  "(string \<Rightarrow> uint64) \<Rightarrow> fakeRegistry \<Rightarrow> call list \<Rightarrow> (Schema \<times> SubjectSchema) list" where
  "returned Rabin fr [] = []"
| "returned Rabin fr (CallCreateSchema subject sch # rest) =
     (sch, fst (CreateSchema Rabin fr subject sch)) #
       returned Rabin (snd (CreateSchema Rabin fr subject sch)) rest"
| "returned Rabin fr (CallSchemaByID i # rest) =
     returned Rabin (snd (SchemaByID fr i)) rest"
| "returned Rabin fr (CallSchemaBySubjectVersion subject v # rest) =
     returned Rabin (snd (SchemaBySubjectVersion fr subject v)) rest"
| "returned Rabin fr (CallSubjectVersionsByID i # rest) =
     returned Rabin (snd (SubjectVersionsByID fr i)) rest"

definition intSchema :: Schema where
  "intSchema = \<lparr>Schema = ''int'', Type = 0\<rparr>"

text \<open>A stand-in for what lies outside the source, to run the handlers on concrete
  requests: the encoders write the fields of their value.\<close>

definition sampleLib :: externals where
  "sampleLib =
     \<lparr>rabin = sampleRabin,
      marshalSchema = (\<lambda>s. Inr (JObject [(''schema'', JString (Schema s))])),
      marshalSubjectSchema =
        (\<lambda>ss. Inr (JObject [(''subject'', JString (Subject ss)),
                            (''version'', JNumber (Version ss)),
                            (''id'', JNumber (ID ss)),
                            (''schema'', JString (Schema (schema ss)))]))\<rparr>"

text \<open>The error body of the wire format: a JSON object with the two fields
  \<^verbatim>\<open>error_code\<close>, a number, and \<^verbatim>\<open>message\<close>, a string.\<close>

fun errorBody :: "payload \<Rightarrow> bool" where
  "errorBody (JSONBody (JObject [(k1, JNumber code), (k2, JErrorText err)])) =
     (k1 = ''error_code'' \<and> k2 = ''message'')"
| "errorBody _ = False"

section \<open>The loops\<close>

lemma foldl_append_slice:
  "foldl (\<lambda>sss ss. if P ss then append_slice sss ss else sss) acc xs =
     (if filter P xs = [] then acc else Slice (elems acc @ filter P xs))"
proof (induction xs arbitrary: acc)
  case Nil
  then show ?case by simp
next
  case (Cons x xs)
  then show ?case by (cases acc) auto
qed

lemma findBySubject_eq:
  "findBySubject fr s =
     (if filter (\<lambda>r. Subject r = s) (schemas fr) = [] then NilSlice
      else Slice (filter (\<lambda>r. Subject r = s) (schemas fr)))"
  by (simp add: findBySubject_def foldl_append_slice)

lemma elems_findBySubject:
  "elems (findBySubject fr s) = filter (\<lambda>r. Subject r = s) (schemas fr)"
  by (simp add: findBySubject_eq)

lemma findAllByID_eq:
  "findAllByID fr i =
     (if filter (\<lambda>r. ID r = i) (schemas fr) = [] then NilSlice
      else Slice (filter (\<lambda>r. ID r = i) (schemas fr)))"
  by (simp add: findAllByID_def foldl_append_slice)

lemma findOneByID_loop_find:
  "findOneByID_loop xs i = map_option schema (find (\<lambda>r. ID r = i) xs)"
  by (induction xs) auto

lemma findBySubjectID_loop_find:
  "findBySubjectID_loop xs s i = find (\<lambda>r. Subject r = s \<and> ID r = i) xs"
  by (induction xs) auto

lemma findBySubjectVersion_loop_find:
  "findBySubjectVersion_loop xs s v = find (\<lambda>r. Subject r = s \<and> Version r = v) xs"
  by (induction xs) auto

section \<open>The invariant of the store\<close>

lemma store_inv_zero: "store_inv Rabin zeroRegistry"
  by (simp add: store_inv_def zeroRegistry_def recs_def)

lemma init_store_inv: "store_inv Rabin fr \<Longrightarrow> init fr = fr\<lparr>initOnce := True\<rparr>"
  by (auto simp: store_inv_def init_def)

lemma store_inv_init: "store_inv Rabin fr \<Longrightarrow> store_inv Rabin (init fr)"
  by (simp add: init_store_inv) (simp add: store_inv_def recs_def)

lemma CreateSchema_found:
  assumes "fingerprintIDCache (init fr) (Rabin (Schema c)) = Some i"
    and "findBySubjectID (init fr) s i = Some ss"
  shows "CreateSchema Rabin fr s c = (ss, init fr)"
  using assms by (simp add: CreateSchema_def)

lemma CreateSchema_reuse:
  assumes "fingerprintIDCache (init fr) (Rabin (Schema c)) = Some i"
    and "findBySubjectID (init fr) s i = None"
  shows "CreateSchema Rabin fr s c =
     (\<lparr>Subject = s, Version = nextVersion (init fr) s, ID = i, schema = c\<rparr>,
      (init fr)\<lparr>schemas := schemas (init fr) @
          [\<lparr>Subject = s, Version = nextVersion (init fr) s, ID = i, schema = c\<rparr>]\<rparr>)"
proof -
  have "(fingerprintIDCache (init fr))(Rabin (Schema c) \<mapsto> i) = fingerprintIDCache (init fr)"
    using assms(1) by (simp add: map_upd_triv)
  then show ?thesis using assms by (simp add: CreateSchema_def Let_def)
qed

lemma CreateSchema_fresh:
  assumes "fingerprintIDCache (init fr) (Rabin (Schema c)) = None"
  shows "CreateSchema Rabin fr s c =
     (\<lparr>Subject = s, Version = nextVersion (init fr) s, ID = idSequence (init fr) + 1, schema = c\<rparr>,
      (init fr)\<lparr>idSequence := idSequence (init fr) + 1,
          schemas := schemas (init fr) @
          [\<lparr>Subject = s, Version = nextVersion (init fr) s, ID = idSequence (init fr) + 1, schema = c\<rparr>],
          fingerprintIDCache := (fingerprintIDCache (init fr))(Rabin (Schema c) \<mapsto> idSequence (init fr) + 1)\<rparr>)"
  using assms by (simp add: CreateSchema_def Let_def nextID_def nextVersion_def findBySubject_def)

lemma initOnce_init [simp]: "initOnce (init fr)"
  by (simp add: init_def)

lemma nextVersion_eq: "nextVersion fr s = int (length (recs fr s)) + 1"
  by (simp add: nextVersion_def len_def elems_findBySubject recs_def)

lemma findBySubjectID_None:
  "findBySubjectID fr s i = None \<longleftrightarrow> (s, i) \<notin> set (map (\<lambda>r. (Subject r, ID r)) (schemas fr))"
  by (auto simp: findBySubjectID_def findBySubjectID_loop_find find_None_iff)

lemma store_inv_append:
  assumes I: "store_inv Rabin fr" and io: "initOnce fr"
    and new: "(s, i) \<notin> set (map (\<lambda>r. (Subject r, ID r)) (schemas fr))"
    and c: "(fingerprintIDCache fr (Rabin (Schema c)) = Some i \<and> n = idSequence fr) \<or>
            (fingerprintIDCache fr (Rabin (Schema c)) = None \<and> i = idSequence fr + 1 \<and> n = i)"
  shows "store_inv Rabin (fr\<lparr>idSequence := n,
           schemas := schemas fr @ [\<lparr>Subject = s, Version = int (length (recs fr s)) + 1, ID = i, schema = c\<rparr>],
           fingerprintIDCache := (fingerprintIDCache fr)(Rabin (Schema c) \<mapsto> i)\<rparr>)"
    (is "store_inv Rabin ?fr'")
proof -
  let ?ss = "\<lparr>Subject = s, Version = int (length (recs fr s)) + 1, ID = i, schema = c\<rparr>"
  have b1: "\<And>k j. fingerprintIDCache fr k = Some j \<Longrightarrow> 1 \<le> j"
    and b2: "\<And>k j. fingerprintIDCache fr k = Some j \<Longrightarrow> j \<le> idSequence fr"
    using I by (simp_all add: store_inv_def)
  have cc: "\<And>k k' j. fingerprintIDCache fr k = Some j \<Longrightarrow> fingerprintIDCache fr k' = Some j \<Longrightarrow> k = k'"
    using I by (simp add: store_inv_def)
  have d: "\<And>r. r \<in> set (schemas fr) \<Longrightarrow> fingerprintIDCache fr (Rabin (Schema (schema r))) = Some (ID r)"
    using I by (simp add: store_inv_def)
  have e: "\<And>s. map Version (recs fr s) = map int [1..<Suc (length (recs fr s))]"
    using I by (simp add: store_inv_def)
  have f: "distinct (map (\<lambda>r. (Subject r, ID r)) (schemas fr))"
    using I by (simp add: store_inv_def)
  have g: "0 \<le> idSequence fr" "idSequence fr \<le> int (length (schemas fr))"
    using I by (simp_all add: store_inv_def)
  have 1: "\<not> initOnce ?fr' \<longrightarrow> schemas ?fr' = [] \<and> fingerprintIDCache ?fr' = Map.empty"
    using io by simp
  have 2: "\<forall>k j. fingerprintIDCache ?fr' k = Some j \<longrightarrow> 1 \<le> j \<and> j \<le> idSequence ?fr'"
    using c g by (fastforce split: if_splits dest: b1 b2)
  have 3: "\<forall>k k' j. fingerprintIDCache ?fr' k = Some j \<and> fingerprintIDCache ?fr' k' = Some j \<longrightarrow> k = k'"
    using c by (fastforce split: if_splits dest: b1 b2 cc)
  have 4: "\<forall>r \<in> set (schemas ?fr'). fingerprintIDCache ?fr' (Rabin (Schema (schema r))) = Some (ID r)"
    using c by (fastforce dest: d)
  have 5: "\<forall>s'. map Version (recs ?fr' s') = map int [1..<Suc (length (recs ?fr' s'))]"
    using e by (auto simp: recs_def)
  have 6: "distinct (map (\<lambda>r. (Subject r, ID r)) (schemas ?fr'))"
    using f new by auto
  have 7: "0 \<le> idSequence ?fr' \<and> idSequence ?fr' \<le> int (length (schemas ?fr'))"
    using c g by auto
  show ?thesis
    unfolding store_inv_def using 1 2 3 4 5 6 7 by blast
qed


lemma store_inv_ids_le:
  assumes "store_inv Rabin fr" and "r \<in> set (schemas fr)"
  shows "1 \<le> ID r \<and> ID r \<le> idSequence fr"
  using assms unfolding store_inv_def by blast

lemma store_inv_CreateSchema:
  assumes I: "store_inv Rabin fr"
  shows "store_inv Rabin (snd (CreateSchema Rabin fr s c))"
proof -
  let ?fr = "init fr"
  have I': "store_inv Rabin ?fr" using I by (rule store_inv_init)
  show ?thesis
  proof (cases "fingerprintIDCache ?fr (Rabin (Schema c))")
    case None
    have new: "(s, idSequence ?fr + 1) \<notin> set (map (\<lambda>r. (Subject r, ID r)) (schemas ?fr))"
      using store_inv_ids_le[OF I'] by fastforce
    show ?thesis
      using store_inv_append[OF I' initOnce_init new, of c "idSequence ?fr + 1"] None
      by (simp add: CreateSchema_fresh nextVersion_eq)
  next
    case (Some i)
    show ?thesis
    proof (cases "findBySubjectID ?fr s i")
      case None
      have new: "(s, i) \<notin> set (map (\<lambda>r. (Subject r, ID r)) (schemas ?fr))"
        using None by (simp add: findBySubjectID_None)
      have "(fingerprintIDCache ?fr)(Rabin (Schema c) \<mapsto> i) = fingerprintIDCache ?fr"
        using Some by (simp add: map_upd_triv)
      then show ?thesis
        using store_inv_append[OF I' initOnce_init new, of c "idSequence ?fr"] Some None
        by (simp add: CreateSchema_reuse nextVersion_eq)
    next
      case (Some ss)
      then show ?thesis
        using \<open>fingerprintIDCache ?fr (Rabin (Schema c)) = Some i\<close> I'
        by (simp add: CreateSchema_found)
    qed
  qed
qed

lemma store_inv_step: "store_inv Rabin fr \<Longrightarrow> store_inv Rabin (step Rabin fr c)"
  by (cases c)
     (simp_all add: store_inv_CreateSchema SchemaByID_def SchemaBySubjectVersion_def
        SubjectVersionsByID_def store_inv_init Let_def)

lemma store_inv_foldl:
  "store_inv Rabin fr \<Longrightarrow> store_inv Rabin (foldl (step Rabin) fr calls)"
  by (induction calls arbitrary: fr) (simp_all add: store_inv_step)

lemma store_inv_run: "store_inv Rabin (run Rabin calls)"
  by (simp add: run_def store_inv_foldl store_inv_zero)


lemma store_inv_initOnce:
  "store_inv Rabin fr \<Longrightarrow> r \<in> set (schemas fr) \<Longrightarrow> initOnce fr"
  unfolding store_inv_def by fastforce

lemma init_idem: "initOnce fr \<Longrightarrow> init fr = fr"
  by (simp add: init_def)

lemma find_distinct_key:
  "distinct (map f xs) \<Longrightarrow> r \<in> set xs \<Longrightarrow> find (\<lambda>x. f x = f r) xs = Some r"
  by (induction xs) (auto simp: image_iff)

lemma findBySubjectID_member:
  assumes "store_inv Rabin fr" and "r \<in> set (schemas fr)"
  shows "findBySubjectID fr (Subject r) (ID r) = Some r"
proof -
  have "distinct (map (\<lambda>r. (Subject r, ID r)) (schemas fr))"
    using assms(1) by (simp add: store_inv_def)
  from find_distinct_key[OF this assms(2)]
  show ?thesis by (simp add: findBySubjectID_def findBySubjectID_loop_find)
qed

lemma CreateSchema_existing:
  assumes I: "store_inv Rabin fr" and r: "r \<in> set (schemas fr)"
    and c: "fingerprintIDCache fr (Rabin (Schema c)) = Some (ID r)"
  shows "CreateSchema Rabin fr (Subject r) c = (r, fr)"
proof -
  have "init fr = fr" using store_inv_initOnce[OF I r] by (rule init_idem)
  then show ?thesis
    using CreateSchema_found[of fr Rabin c "ID r" "Subject r" r] c findBySubjectID_member[OF I r]
    by simp
qed

lemma find_Some_member: "find P xs = Some x \<Longrightarrow> x \<in> set xs \<and> P x"
  by (induction xs) (auto split: if_splits)

lemma CreateSchema_result:
  assumes I: "store_inv Rabin fr" and C: "CreateSchema Rabin fr s c = (r, fr')"
  shows "r \<in> set (schemas fr') \<and> Subject r = s \<and>
         fingerprintIDCache fr' (Rabin (Schema c)) = Some (ID r)"
proof (cases "fingerprintIDCache (init fr) (Rabin (Schema c))")
  case None
  show ?thesis using C CreateSchema_fresh[of fr Rabin c s] None by auto
next
  case (Some i)
  show ?thesis
  proof (cases "findBySubjectID (init fr) s i")
    case None
    show ?thesis using C Some None CreateSchema_reuse[of fr Rabin c i s] by auto
  next
    case (Some ss)
    have "ss \<in> set (schemas (init fr)) \<and> Subject ss = s \<and> ID ss = i"
      using Some find_Some_member[of "\<lambda>r. Subject r = s \<and> ID r = i" "schemas (init fr)" ss]
      by (simp add: findBySubjectID_def findBySubjectID_loop_find)
    then show ?thesis
      using C \<open>fingerprintIDCache (init fr) (Rabin (Schema c)) = Some i\<close> Some
        CreateSchema_found[of fr Rabin c i s ss]
      by auto
  qed
qed

section \<open>Registration\<close>

lemma run_foo:
  "run sampleRabin [CallCreateSchema ''foo'' stringSchema] =
     \<lparr>schemas = [\<lparr>Subject = ''foo'', Version = 1, ID = 1, schema = stringSchema\<rparr>],
      fingerprintIDCache = [6 \<mapsto> 1], idSequence = 1, initOnce = True\<rparr>"
  by (simp add: run_def zeroRegistry_def CreateSchema_def init_def nextID_def nextVersion_def
      findBySubject_def len_def sampleRabin_def stringSchema_def Let_def)

text \<open>
  C1 (idempotent re-registration). In every store reached from the zero value: if a
  record \<open>r\<close> of subject \<open>s\<close> carries the id cached for the fingerprint of \<open>c\<close>, then
  \<open>CreateSchema s c\<close> returns \<open>r\<close> and leaves the store as it is. And whatever a
  registration of \<open>c\<close> under \<open>s\<close> returns, registering the same text under \<open>s\<close> again
  returns the same record (same id, same version) and the subject has as many records
  as before.
\<close>

theorem CreateSchema_idempotent:
  "(r \<in> set (schemas (run Rabin calls)) \<and> Subject r = s \<and>
      fingerprintIDCache (run Rabin calls) (Rabin (Schema c)) = Some (ID r)
      \<longrightarrow> CreateSchema Rabin (run Rabin calls) s c = (r, run Rabin calls)) \<and>
   (CreateSchema Rabin (run Rabin calls) s c = (r1, fr1) \<and> Schema c' = Schema c
      \<longrightarrow> CreateSchema Rabin fr1 s c' = (r1, fr1) \<and>
          len (findBySubject (snd (CreateSchema Rabin fr1 s c')) s) = len (findBySubject fr1 s))"
proof (intro conjI impI)
  assume "r \<in> set (schemas (run Rabin calls)) \<and> Subject r = s \<and>
      fingerprintIDCache (run Rabin calls) (Rabin (Schema c)) = Some (ID r)"
  then show "CreateSchema Rabin (run Rabin calls) s c = (r, run Rabin calls)"
    using CreateSchema_existing[OF store_inv_run, of r Rabin calls c] by auto
next
  assume A: "CreateSchema Rabin (run Rabin calls) s c = (r1, fr1) \<and> Schema c' = Schema c"
  have I1: "store_inv Rabin fr1"
    using store_inv_CreateSchema[OF store_inv_run, of Rabin calls s c] A by simp
  have R: "r1 \<in> set (schemas fr1) \<and> Subject r1 = s \<and>
         fingerprintIDCache fr1 (Rabin (Schema c)) = Some (ID r1)"
    using CreateSchema_result[OF store_inv_run] A by blast
  then show E: "CreateSchema Rabin fr1 s c' = (r1, fr1)"
    using CreateSchema_existing[OF I1, of r1 c'] A by auto
  show "len (findBySubject (snd (CreateSchema Rabin fr1 s c')) s) = len (findBySubject fr1 s)"
    by (simp add: E)
qed

theorem CreateSchema_idempotent_witness:
  "CreateSchema sampleRabin (run sampleRabin [CallCreateSchema ''foo'' stringSchema]) ''foo'' stringSchema
     = (\<lparr>Subject = ''foo'', Version = 1, ID = 1, schema = stringSchema\<rparr>,
        run sampleRabin [CallCreateSchema ''foo'' stringSchema]) \<and>
   CreateSchema sampleRabin (snd (CreateSchema sampleRabin (run sampleRabin []) ''foo'' stringSchema))
      ''foo'' stringSchema
     = CreateSchema sampleRabin (run sampleRabin []) ''foo'' stringSchema"
proof -
  let ?r = "\<lparr>Subject = ''foo'', Version = 1, ID = 1, schema = stringSchema\<rparr>"
  let ?calls = "[CallCreateSchema ''foo'' stringSchema]"
  have h: "?r \<in> set (schemas (run sampleRabin ?calls)) \<and> Subject ?r = ''foo'' \<and>
      fingerprintIDCache (run sampleRabin ?calls) (sampleRabin (Schema stringSchema)) = Some (ID ?r)"
    unfolding run_foo by (simp add: sampleRabin_def stringSchema_def)
  have g: "CreateSchema sampleRabin (run sampleRabin []) ''foo'' stringSchema =
      (fst (CreateSchema sampleRabin (run sampleRabin []) ''foo'' stringSchema),
       snd (CreateSchema sampleRabin (run sampleRabin []) ''foo'' stringSchema)) \<and>
      Schema stringSchema = Schema stringSchema"
    by simp
  from CreateSchema_idempotent[THEN conjunct1, THEN mp, OF h]
       CreateSchema_idempotent[THEN conjunct2, THEN mp, OF g, THEN conjunct1]
  show ?thesis by simp
qed

lemma schemas_init: "schemas (init fr) = (if initOnce fr then schemas fr else [])"
  by (simp add: init_def)

text \<open>What a registration does in any store, reached or not: the record it returns
  is of the subject and carries the id now cached for the content's fingerprint (the id
  cached before, if there was one); either it is a record already stored and the store
  is as \<open>init\<close> leaves it, or it is appended with the subject's record count plus one
  as its version.\<close>

lemma CreateSchema_any_store:
  assumes C: "CreateSchema Rabin fr s c = (r, fr')"
  shows "Subject r = s \<and> initOnce fr' \<and>
         fingerprintIDCache fr' (Rabin (Schema c)) = Some (ID r) \<and>
         (\<forall>i. fingerprintIDCache (init fr) (Rabin (Schema c)) = Some i \<longrightarrow> ID r = i) \<and>
         ((r \<in> set (schemas (init fr)) \<and> fr' = init fr) \<or>
          (Version r = len (findBySubject (init fr) s) + 1 \<and> schema r = c \<and>
           schemas fr' = schemas (init fr) @ [r]))"
proof (cases "fingerprintIDCache (init fr) (Rabin (Schema c))")
  case None
  then show ?thesis
    using C CreateSchema_fresh[of fr Rabin c s] by (auto simp: nextVersion_def)
next
  case (Some i)
  show ?thesis
  proof (cases "findBySubjectID (init fr) s i")
    case None
    then show ?thesis
      using C Some CreateSchema_reuse[of fr Rabin c i s] by (auto simp: nextVersion_def)
  next
    case (Some ss)
    have "ss \<in> set (schemas (init fr)) \<and> Subject ss = s \<and> ID ss = i"
      using Some find_Some_member[of "\<lambda>r. Subject r = s \<and> ID r = i" "schemas (init fr)" ss]
      by (simp add: findBySubjectID_def findBySubjectID_loop_find)
    then show ?thesis
      using C \<open>fingerprintIDCache (init fr) (Rabin (Schema c)) = Some i\<close> Some
        CreateSchema_found[of fr Rabin c i s ss]
      by auto
  qed
qed

lemma len_findBySubject_no_recs:
  "\<forall>r \<in> set (schemas fr). Subject r \<noteq> s \<Longrightarrow> len (findBySubject fr s) = 0"
  by (simp add: len_def elems_findBySubject filter_empty_conv[THEN iffD2])

text \<open>
  C2 (cross-subject id reuse), as amended. In every store and for all subjects \<open>A\<close>
  and \<open>B\<close>: registering a content under \<open>A\<close> and then the same text under \<open>B\<close> gives
  both registrations the same id, which the cache holds for the content's fingerprint
  afterwards. Each registration returns a record of its own subject that either was
  stored already (the store is then unchanged) or is appended with the version
  "records of that subject plus one": versions are counted per subject. When \<open>A\<close> and
  \<open>B\<close> are distinct and neither holds a record yet, each registration gets version 1
  and the store gains exactly the two records, in that order.
\<close>

theorem CreateSchema_cross_subject:
  assumes same: "Schema c' = Schema c"
    and C1: "CreateSchema Rabin fr A c = (r1, fr1)"
    and C2: "CreateSchema Rabin fr1 B c' = (r2, fr2)"
  shows "ID r2 = ID r1 \<and> Subject r1 = A \<and> Subject r2 = B \<and>
         fingerprintIDCache fr2 (Rabin (Schema c)) = Some (ID r1) \<and>
         ((r1 \<in> set (schemas (init fr)) \<and> fr1 = init fr) \<or>
          (Version r1 = len (findBySubject (init fr) A) + 1 \<and> schema r1 = c \<and>
           schemas fr1 = schemas (init fr) @ [r1])) \<and>
         ((r2 \<in> set (schemas fr1) \<and> fr2 = fr1) \<or>
          (Version r2 = len (findBySubject fr1 B) + 1 \<and> schema r2 = c' \<and>
           schemas fr2 = schemas fr1 @ [r2])) \<and>
         (A \<noteq> B \<and> (\<forall>r \<in> set (schemas fr). Subject r \<noteq> A \<and> Subject r \<noteq> B) \<longrightarrow>
            Version r1 = 1 \<and> Version r2 = 1 \<and> schema r1 = c \<and> schema r2 = c' \<and>
            schemas fr2 = schemas (init fr) @ [r1, r2])"
proof -
  note 1 = CreateSchema_any_store[OF C1]
  note 2 = CreateSchema_any_store[OF C2]
  have i1: "init fr1 = fr1" using 1 by (simp add: init_idem)
  have id: "ID r2 = ID r1" using 1 2 same i1 by simp
  have d1: "(r1 \<in> set (schemas (init fr)) \<and> fr1 = init fr) \<or>
          (Version r1 = len (findBySubject (init fr) A) + 1 \<and> schema r1 = c \<and>
           schemas fr1 = schemas (init fr) @ [r1])"
    using 1 by blast
  have d2: "(r2 \<in> set (schemas fr1) \<and> fr2 = fr1) \<or>
          (Version r2 = len (findBySubject fr1 B) + 1 \<and> schema r2 = c' \<and>
           schemas fr2 = schemas fr1 @ [r2])"
    using 2 i1 by simp
  have fresh: "A \<noteq> B \<and> (\<forall>r \<in> set (schemas fr). Subject r \<noteq> A \<and> Subject r \<noteq> B) \<longrightarrow>
            Version r1 = 1 \<and> Version r2 = 1 \<and> schema r1 = c \<and> schema r2 = c' \<and>
            schemas fr2 = schemas (init fr) @ [r1, r2]"
  proof
    assume h: "A \<noteq> B \<and> (\<forall>r \<in> set (schemas fr). Subject r \<noteq> A \<and> Subject r \<noteq> B)"
    have noA: "\<forall>r \<in> set (schemas (init fr)). Subject r \<noteq> A"
      and noB0: "\<forall>r \<in> set (schemas (init fr)). Subject r \<noteq> B"
      using h by (simp_all add: schemas_init)
    have s1: "Subject r1 = A" using 1 by simp
    have a1: "Version r1 = len (findBySubject (init fr) A) + 1 \<and> schema r1 = c \<and>
           schemas fr1 = schemas (init fr) @ [r1]"
      using d1 noA s1 by blast
    then have v1: "Version r1 = 1" using len_findBySubject_no_recs[OF noA] by simp
    have noB: "\<forall>r \<in> set (schemas fr1). Subject r \<noteq> B"
      using a1 noB0 s1 h by auto
    have s2: "Subject r2 = B" using 2 by simp
    have a2: "Version r2 = len (findBySubject fr1 B) + 1 \<and> schema r2 = c' \<and>
           schemas fr2 = schemas fr1 @ [r2]"
      using d2 noB s2 by blast
    then have v2: "Version r2 = 1" using len_findBySubject_no_recs[OF noB] by simp
    show "Version r1 = 1 \<and> Version r2 = 1 \<and> schema r1 = c \<and> schema r2 = c' \<and>
            schemas fr2 = schemas (init fr) @ [r1, r2]"
      using v1 v2 a1 a2 by simp
  qed
  have cache: "fingerprintIDCache fr2 (Rabin (Schema c)) = Some (ID r1)"
    using 2 same id by simp
  show ?thesis using id 1 2 cache d1 d2 fresh by blast
qed

theorem CreateSchema_cross_subject_witness:
  "ID (fst (CreateSchema sampleRabin
              (snd (CreateSchema sampleRabin zeroRegistry ''A'' stringSchema)) ''B'' stringSchema))
     = ID (fst (CreateSchema sampleRabin zeroRegistry ''A'' stringSchema)) \<and>
   Version (fst (CreateSchema sampleRabin zeroRegistry ''A'' stringSchema)) = 1 \<and>
   Version (fst (CreateSchema sampleRabin
              (snd (CreateSchema sampleRabin zeroRegistry ''A'' stringSchema)) ''B'' stringSchema)) = 1 \<and>
   schemas (snd (CreateSchema sampleRabin
              (snd (CreateSchema sampleRabin zeroRegistry ''A'' stringSchema)) ''B'' stringSchema)) =
     [fst (CreateSchema sampleRabin zeroRegistry ''A'' stringSchema),
      fst (CreateSchema sampleRabin
              (snd (CreateSchema sampleRabin zeroRegistry ''A'' stringSchema)) ''B'' stringSchema)]"
proof -
  have h: "''A'' \<noteq> ''B'' \<and>
      (\<forall>r \<in> set (schemas zeroRegistry). Subject r \<noteq> ''A'' \<and> Subject r \<noteq> ''B'')"
    by (simp add: zeroRegistry_def)
  have z: "schemas (init zeroRegistry) = []"
    by (simp add: init_def zeroRegistry_def)
  note T = CreateSchema_cross_subject[OF refl surjective_pairing surjective_pairing,
      of sampleRabin zeroRegistry "''A''" stringSchema "''B''"]
  from T[THEN conjunct1]
    T[THEN conjunct2, THEN conjunct2, THEN conjunct2, THEN conjunct2, THEN conjunct2,
      THEN conjunct2, THEN mp, OF h]
  show ?thesis by (simp add: z)
qed

lemma version_two_after_other_content:
  assumes "Rabin ''int'' \<noteq> Rabin ''string''"
  shows "Version (fst (CreateSchema Rabin (run Rabin [CallCreateSchema ''A'' intSchema])
            ''A'' stringSchema)) = 2"
  using assms
  by (simp add: run_def zeroRegistry_def CreateSchema_def init_def nextID_def nextVersion_def
      findBySubject_def findBySubjectID_def len_def stringSchema_def intSchema_def Let_def)

text \<open>
  C2 as stated fails in its version half: it asks for version 1 whatever the store
  holds. Let subject A hold the content \<^verbatim>\<open>int\<close>. Registering \<^verbatim>\<open>string\<close> under A is A's
  second record and gets version 2 (for the stand-in fingerprint, and for every
  fingerprint function that tells the two contents apart); registering \<^verbatim>\<open>string\<close> under
  B afterwards still reuses the id.
\<close>

theorem cross_subject_version_two:
  "Version (fst (CreateSchema sampleRabin (run sampleRabin [CallCreateSchema ''A'' intSchema])
      ''A'' stringSchema)) = 2 \<and>
   ID (fst (CreateSchema sampleRabin
        (snd (CreateSchema sampleRabin (run sampleRabin [CallCreateSchema ''A'' intSchema])
           ''A'' stringSchema)) ''B'' stringSchema)) =
   ID (fst (CreateSchema sampleRabin (run sampleRabin [CallCreateSchema ''A'' intSchema])
      ''A'' stringSchema)) \<and>
   \<not> (\<exists>Rabin :: string \<Rightarrow> uint64. Rabin ''int'' \<noteq> Rabin ''string'' \<and>
        Version (fst (CreateSchema Rabin (run Rabin [CallCreateSchema ''A'' intSchema])
            ''A'' stringSchema)) = 1)"
proof -
  have s: "sampleRabin ''int'' \<noteq> sampleRabin ''string''"
    by (simp add: sampleRabin_def)
  have 1: "Version (fst (CreateSchema sampleRabin (run sampleRabin [CallCreateSchema ''A'' intSchema])
      ''A'' stringSchema)) = 2"
    using version_two_after_other_content[OF s] .
  have 2: "ID (fst (CreateSchema sampleRabin
        (snd (CreateSchema sampleRabin (run sampleRabin [CallCreateSchema ''A'' intSchema])
           ''A'' stringSchema)) ''B'' stringSchema)) =
   ID (fst (CreateSchema sampleRabin (run sampleRabin [CallCreateSchema ''A'' intSchema])
      ''A'' stringSchema))"
    using CreateSchema_any_store[OF surjective_pairing,
        of sampleRabin "run sampleRabin [CallCreateSchema ''A'' intSchema]" "''A''" stringSchema]
      CreateSchema_any_store[OF surjective_pairing, of sampleRabin
        "snd (CreateSchema sampleRabin (run sampleRabin [CallCreateSchema ''A'' intSchema])
           ''A'' stringSchema)" "''B''" stringSchema]
    by (simp add: init_idem)
  have 3: "\<not> (\<exists>Rabin :: string \<Rightarrow> uint64. Rabin ''int'' \<noteq> Rabin ''string'' \<and>
        Version (fst (CreateSchema Rabin (run Rabin [CallCreateSchema ''A'' intSchema])
            ''A'' stringSchema)) = 1)"
  proof
    assume "\<exists>Rabin :: string \<Rightarrow> uint64. Rabin ''int'' \<noteq> Rabin ''string'' \<and>
        Version (fst (CreateSchema Rabin (run Rabin [CallCreateSchema ''A'' intSchema])
            ''A'' stringSchema)) = 1"
    then obtain Rabin :: "string \<Rightarrow> uint64" where a: "Rabin ''int'' \<noteq> Rabin ''string''"
      and b: "Version (fst (CreateSchema Rabin (run Rabin [CallCreateSchema ''A'' intSchema])
            ''A'' stringSchema)) = 1"
      by (elim exE conjE)
    show False using version_two_after_other_content[OF a] b by simp
  qed
  show ?thesis using 1 2 3 by (intro conjI)
qed

section \<open>Versions\<close>

lemma registrations_append:
  "registrations s (xs @ ys) = registrations s xs @ registrations s ys"
  by (induction s xs rule: registrations.induct) auto

lemma run_snoc: "run Rabin (calls @ [c]) = step Rabin (run Rabin calls) c"
  by (simp add: run_def)

lemma run_append: "run Rabin (calls @ later) = foldl (step Rabin) (run Rabin calls) later"
  by (simp add: run_def)

lemma schemas_init_inv: "store_inv Rabin fr \<Longrightarrow> schemas (init fr) = schemas fr"
  by (simp add: init_store_inv)

lemma cache_init_inv:
  "store_inv Rabin fr \<Longrightarrow> fingerprintIDCache (init fr) = fingerprintIDCache fr"
  by (simp add: init_store_inv)

text \<open>A registration either returns a stored record or appends the one it returns.\<close>

lemma CreateSchema_schemas:
  assumes I: "store_inv Rabin fr" and C: "CreateSchema Rabin fr s c = (r, fr')"
  shows "(r \<in> set (schemas fr) \<and> Subject r = s \<and> schemas fr' = schemas fr \<and>
            fingerprintIDCache fr (Rabin (Schema c)) = Some (ID r)) \<or>
         (schemas fr' = schemas fr @ [r] \<and> Subject r = s \<and> schema r = c \<and>
            findBySubjectID fr s (ID r) = None)"
proof (cases "fingerprintIDCache (init fr) (Rabin (Schema c))")
  case None
  have "(s, idSequence (init fr) + 1) \<notin> set (map (\<lambda>r. (Subject r, ID r)) (schemas (init fr)))"
    using store_inv_ids_le[OF store_inv_init[OF I]] by fastforce
  then have "findBySubjectID fr s (idSequence (init fr) + 1) = None"
    by (simp add: findBySubjectID_None schemas_init_inv[OF I])
  then show ?thesis
    using C CreateSchema_fresh[of fr Rabin c s] None schemas_init_inv[OF I] by auto
next
  case (Some i)
  show ?thesis
  proof (cases "findBySubjectID (init fr) s i")
    case None
    then have "findBySubjectID fr s i = None"
      by (simp add: findBySubjectID_def schemas_init_inv[OF I])
    then show ?thesis
      using C Some None CreateSchema_reuse[of fr Rabin c i s] schemas_init_inv[OF I] by auto
  next
    case (Some ss)
    have "ss \<in> set (schemas (init fr)) \<and> Subject ss = s \<and> ID ss = i"
      using Some find_Some_member[of "\<lambda>r. Subject r = s \<and> ID r = i" "schemas (init fr)" ss]
      by (simp add: findBySubjectID_def findBySubjectID_loop_find)
    then show ?thesis
      using C \<open>fingerprintIDCache (init fr) (Rabin (Schema c)) = Some i\<close> Some
        CreateSchema_found[of fr Rabin c i s ss] schemas_init_inv[OF I] cache_init_inv[OF I]
      by auto
  qed
qed

lemma schemas_step_lookup:
  assumes "store_inv Rabin fr" and "\<forall>s c. cl \<noteq> CallCreateSchema s c"
  shows "schemas (step Rabin fr cl) = schemas fr"
  using assms
  by (cases cl) (simp_all add: SchemaByID_def SchemaBySubjectVersion_def SubjectVersionsByID_def
      Let_def schemas_init_inv)

lemma schemas_step_prefix:
  assumes "store_inv Rabin fr"
  shows "\<exists>ys. schemas (step Rabin fr cl) = schemas fr @ ys"
proof (cases cl)
  case (CallCreateSchema s c)
  then show ?thesis
    using CreateSchema_schemas[OF assms, of s c "fst (CreateSchema Rabin fr s c)" "snd (CreateSchema Rabin fr s c)"]
    by auto
qed (use assms in \<open>simp_all add: SchemaByID_def SchemaBySubjectVersion_def SubjectVersionsByID_def
      Let_def schemas_init_inv\<close>)

lemma schemas_foldl_prefix:
  "store_inv Rabin fr \<Longrightarrow> \<exists>ys. schemas (foldl (step Rabin) fr calls) = schemas fr @ ys"
proof (induction calls arbitrary: fr)
  case Nil
  then show ?case by simp
next
  case (Cons cl calls)
  obtain ys where 1: "schemas (step Rabin fr cl) = schemas fr @ ys"
    using schemas_step_prefix[OF Cons.prems] by blast
  obtain zs where "schemas (foldl (step Rabin) (step Rabin fr cl) calls) = schemas (step Rabin fr cl) @ zs"
    using Cons.IH[OF store_inv_step[OF Cons.prems]] by blast
  then show ?case using 1 by simp
qed

lemma store_inv_versions:
  "store_inv Rabin fr \<Longrightarrow> map Version (recs fr s) = map int [1..<Suc (length (recs fr s))]"
  by (simp add: store_inv_def)

lemma store_inv_cache_inj:
  "store_inv Rabin fr \<Longrightarrow> fingerprintIDCache fr k = Some i \<Longrightarrow>
     fingerprintIDCache fr k' = Some i \<Longrightarrow> k = k'"
  unfolding store_inv_def by blast

lemma store_inv_cached:
  "store_inv Rabin fr \<Longrightarrow> r \<in> set (schemas fr) \<Longrightarrow>
     fingerprintIDCache fr (Rabin (Schema (schema r))) = Some (ID r)"
  unfolding store_inv_def by blast

lemma recs_contents_run:
  "distinct (map Rabin (registrations s calls)) \<Longrightarrow>
     map (\<lambda>r. Schema (schema r)) (recs (run Rabin calls) s) = registrations s calls"
proof (induction calls rule: rev_induct)
  case Nil
  then show ?case by (simp add: run_def zeroRegistry_def recs_def)
next
  case (snoc cl calls)
  let ?fr = "run Rabin calls"
  have I: "store_inv Rabin ?fr" by (rule store_inv_run)
  have D: "distinct (map Rabin (registrations s calls))"
    using snoc.prems by (simp add: registrations_append)
  have IH: "map (\<lambda>r. Schema (schema r)) (recs ?fr s) = registrations s calls"
    using snoc.IH[OF D] .
  show ?case
  proof (cases "\<exists>s' c. cl = CallCreateSchema s' c")
    case False
    then have "schemas (step Rabin ?fr cl) = schemas ?fr"
      using schemas_step_lookup[OF I] by simp
    moreover have "registrations s [cl] = []" using False by (cases cl) auto
    ultimately show ?thesis using IH by (simp add: run_snoc registrations_append recs_def)
  next
    case True
    then obtain s' c where cl: "cl = CallCreateSchema s' c" by blast
    obtain r fr' where C: "CreateSchema Rabin ?fr s' c = (r, fr')" by fastforce
    have st: "step Rabin ?fr cl = fr'" using cl C by simp
    note cases = CreateSchema_schemas[OF I C]
    show ?thesis
    proof (cases "s' = s")
      case False
      then have "recs fr' s = recs ?fr s" using cases by (auto simp: recs_def)
      then show ?thesis using IH False cl st by (simp add: run_snoc registrations_append)
    next
      case True
      have new: "Rabin (Schema c) \<notin> Rabin ` set (registrations s calls)"
        using snoc.prems cl True by (simp add: registrations_append)
      have "\<not> (r \<in> set (schemas ?fr) \<and> Subject r = s' \<and>
            fingerprintIDCache ?fr (Rabin (Schema c)) = Some (ID r))"
      proof
        assume A: "r \<in> set (schemas ?fr) \<and> Subject r = s' \<and>
            fingerprintIDCache ?fr (Rabin (Schema c)) = Some (ID r)"
        then have "Rabin (Schema (schema r)) = Rabin (Schema c)"
          using store_inv_cache_inj[OF I store_inv_cached[OF I, of r]] by blast
        moreover have "Schema (schema r) \<in> set (registrations s calls)"
          using A True IH[symmetric] by (auto simp: recs_def)
        ultimately show False using new by (metis image_eqI)
      qed
      then have "schemas fr' = schemas ?fr @ [r] \<and> Subject r = s' \<and> schema r = c"
        using cases by blast
      then show ?thesis using IH True cl st by (simp add: run_snoc registrations_append recs_def)
    qed
  qed
qed

lemma fingerprint_collision: "\<exists>c1 c2. c1 \<noteq> c2 \<and> (Rabin :: string \<Rightarrow> uint64) c1 = Rabin c2"
proof -
  have "\<not> inj Rabin"
  proof
    assume "inj Rabin"
    moreover have "finite (range Rabin)" by simp
    ultimately have "finite (UNIV :: string set)"
      by (rule finite_imageD[rotated])
    then show False using infinite_UNIV_listI by blast
  qed
  then show ?thesis by (auto simp: inj_on_def)
qed

text \<open>The counter and the versions never exceed the number of stored records.\<close>

lemma run_idSequence_bound:
  "0 \<le> idSequence (run Rabin calls) \<and>
   idSequence (run Rabin calls) \<le> int (length (schemas (run Rabin calls)))"
  using store_inv_run[of Rabin calls] by (simp add: store_inv_def)

lemma run_version_bound:
  assumes "x \<in> set (schemas (run Rabin calls))"
  shows "1 \<le> Version x \<and> Version x \<le> int (length (schemas (run Rabin calls)))"
proof -
  let ?fr = "run Rabin calls"
  have "x \<in> set (recs ?fr (Subject x))" using assms by (simp add: recs_def)
  then have "Version x \<in> set (map Version (recs ?fr (Subject x)))" by simp
  then have "Version x \<in> set (map int [1..<Suc (length (recs ?fr (Subject x)))])"
    using store_inv_versions[OF store_inv_run, of Rabin calls "Subject x"] by simp
  then have "1 \<le> Version x \<and> Version x \<le> int (length (recs ?fr (Subject x)))" by auto
  moreover have "length (recs ?fr (Subject x)) \<le> length (schemas ?fr)"
    by (simp add: recs_def)
  ultimately show ?thesis by linarith
qed

text \<open>
  C3 (per-subject versions), as amended. After any sequence of calls on the zero value
  in which the contents registered under a subject have pairwise distinct
  fingerprints, the records of the subject carry, in insertion order, the versions
  \<open>1..N\<close> and the registered contents, \<open>N\<close> being the number of registrations for the
  subject; calls for other subjects and lookups may be interleaved at will. Whatever
  calls follow, the records stored so far stay as they are, so no version is reused or
  reassigned.
\<close>

theorem versions_per_subject:
  assumes "distinct (map Rabin (registrations s calls))"
  shows "map Version (elems (findBySubject (run Rabin calls) s)) =
           map int [1..<Suc (length (registrations s calls))] \<and>
         map (\<lambda>r. Schema (schema r)) (elems (findBySubject (run Rabin calls) s)) =
           registrations s calls \<and>
         (\<exists>ys. schemas (run Rabin (calls @ later)) = schemas (run Rabin calls) @ ys)"
proof -
  have c: "map (\<lambda>r. Schema (schema r)) (recs (run Rabin calls) s) = registrations s calls"
    using recs_contents_run[OF assms] .
  then have "length (recs (run Rabin calls) s) = length (registrations s calls)"
    by (metis length_map)
  then have "map Version (recs (run Rabin calls) s) = map int [1..<Suc (length (registrations s calls))]"
    using store_inv_versions[OF store_inv_run, of Rabin calls s] by simp
  moreover have "\<exists>ys. schemas (run Rabin (calls @ later)) = schemas (run Rabin calls) @ ys"
    using schemas_foldl_prefix[OF store_inv_run] by (simp add: run_append)
  ultimately show ?thesis using c by (simp add: elems_findBySubject recs_def)
qed

theorem versions_per_subject_witness:
  "distinct (map sampleRabin (registrations ''foo''
      [CallCreateSchema ''foo'' stringSchema, CallCreateSchema ''bar'' stringSchema,
       CallCreateSchema ''foo'' intSchema])) \<and>
   map Version (elems (findBySubject (run sampleRabin
      [CallCreateSchema ''foo'' stringSchema, CallCreateSchema ''bar'' stringSchema,
       CallCreateSchema ''foo'' intSchema]) ''foo'')) = [1, 2]"
proof -
  let ?calls = "[CallCreateSchema ''foo'' stringSchema, CallCreateSchema ''bar'' stringSchema,
       CallCreateSchema ''foo'' intSchema]"
  have h: "distinct (map sampleRabin (registrations ''foo'' ?calls))"
    by (simp add: sampleRabin_def stringSchema_def intSchema_def)
  have n: "map int [1..<Suc (length (registrations ''foo'' ?calls))] = [1, 2]"
    by (simp add: upt_rec)
  from versions_per_subject[OF h, of "[]"] show ?thesis using h unfolding n by simp
qed

lemma collision_single_version:
  "\<forall>Rabin :: string \<Rightarrow> uint64. \<exists>c1 c2. c1 \<noteq> c2 \<and>
     registrations ''s'' [CallCreateSchema ''s'' \<lparr>Schema = c1, Type = 0\<rparr>,
                          CallCreateSchema ''s'' \<lparr>Schema = c2, Type = 0\<rparr>] = [c1, c2] \<and>
     map Version (elems (findBySubject
        (run Rabin [CallCreateSchema ''s'' \<lparr>Schema = c1, Type = 0\<rparr>,
                    CallCreateSchema ''s'' \<lparr>Schema = c2, Type = 0\<rparr>]) ''s'')) = [1]"
proof
  fix Rabin :: "string \<Rightarrow> uint64"
  obtain c1 c2 where d: "c1 \<noteq> c2" and e: "Rabin c1 = Rabin c2"
    using fingerprint_collision[of Rabin] by blast
  have "map Version (elems (findBySubject
        (run Rabin [CallCreateSchema ''s'' \<lparr>Schema = c1, Type = 0\<rparr>,
                    CallCreateSchema ''s'' \<lparr>Schema = c2, Type = 0\<rparr>]) ''s'')) = [1]"
    using e
    by (simp add: run_def zeroRegistry_def CreateSchema_def init_def nextID_def nextVersion_def
        findBySubject_def findBySubjectID_def len_def Let_def)
  then show "\<exists>c1 c2. c1 \<noteq> c2 \<and>
     registrations ''s'' [CallCreateSchema ''s'' \<lparr>Schema = c1, Type = 0\<rparr>,
                          CallCreateSchema ''s'' \<lparr>Schema = c2, Type = 0\<rparr>] = [c1, c2] \<and>
     map Version (elems (findBySubject
        (run Rabin [CallCreateSchema ''s'' \<lparr>Schema = c1, Type = 0\<rparr>,
                    CallCreateSchema ''s'' \<lparr>Schema = c2, Type = 0\<rparr>]) ''s'')) = [1]"
    using d by (intro exI[of _ c1] exI[of _ c2]) simp
qed

text \<open>
  C3 as stated fails. Whatever the fingerprint function, two distinct contents share a
  fingerprint (there are infinitely many strings and \<open>2 ^ 64\<close> fingerprints); registered
  under one subject they are two registrations of pairwise distinct content, and the
  subject holds the single version 1, not the versions 1 and 2.
\<close>

theorem versions_fingerprint_collision:
  "\<not> (\<exists>Rabin :: string \<Rightarrow> uint64. \<forall>c1 c2. c1 \<noteq> c2 \<longrightarrow>
      map Version (elems (findBySubject
        (run Rabin [CallCreateSchema ''s'' \<lparr>Schema = c1, Type = 0\<rparr>,
                    CallCreateSchema ''s'' \<lparr>Schema = c2, Type = 0\<rparr>]) ''s'')) = [1, 2])"
proof
  assume "\<exists>Rabin :: string \<Rightarrow> uint64. \<forall>c1 c2. c1 \<noteq> c2 \<longrightarrow>
      map Version (elems (findBySubject
        (run Rabin [CallCreateSchema ''s'' \<lparr>Schema = c1, Type = 0\<rparr>,
                    CallCreateSchema ''s'' \<lparr>Schema = c2, Type = 0\<rparr>]) ''s'')) = [1, 2]"
  then obtain Rabin :: "string \<Rightarrow> uint64" where A: "\<And>c1 c2. c1 \<noteq> c2 \<Longrightarrow>
      map Version (elems (findBySubject
        (run Rabin [CallCreateSchema ''s'' \<lparr>Schema = c1, Type = 0\<rparr>,
                    CallCreateSchema ''s'' \<lparr>Schema = c2, Type = 0\<rparr>]) ''s'')) = [1, 2]"
    by blast
  let ?vs = "\<lambda>c1 c2. map Version (elems (findBySubject
        (run Rabin [CallCreateSchema ''s'' \<lparr>Schema = c1, Type = 0\<rparr>,
                    CallCreateSchema ''s'' \<lparr>Schema = c2, Type = 0\<rparr>]) ''s''))"
  have "\<exists>c1 c2. c1 \<noteq> c2 \<and>
     registrations ''s'' [CallCreateSchema ''s'' \<lparr>Schema = c1, Type = 0\<rparr>,
                          CallCreateSchema ''s'' \<lparr>Schema = c2, Type = 0\<rparr>] = [c1, c2] \<and>
     ?vs c1 c2 = [1]"
    using collision_single_version by (rule spec)
  then obtain c1 c2 where d: "c1 \<noteq> c2" and B: "?vs c1 c2 = [1]"
    by (elim exE conjE)
  have "?vs c1 c2 = [1, 2]" using A[OF d] .
  then show False using B by simp
qed

section \<open>Ids\<close>

lemma CreateSchema_cache:
  assumes I: "store_inv Rabin fr" and C: "CreateSchema Rabin fr s c = (r, fr')"
  shows "fingerprintIDCache fr' = (fingerprintIDCache fr)(Rabin (Schema c) \<mapsto> ID r) \<and>
         (fingerprintIDCache fr (Rabin (Schema c)) = None \<or>
          fingerprintIDCache fr (Rabin (Schema c)) = Some (ID r))"
proof (cases "fingerprintIDCache (init fr) (Rabin (Schema c))")
  case None
  then show ?thesis
    using C CreateSchema_fresh[of fr Rabin c s] cache_init_inv[OF I] by auto
next
  case (Some i)
  show ?thesis
  proof (cases "findBySubjectID (init fr) s i")
    case None
    then show ?thesis
      using C Some CreateSchema_reuse[of fr Rabin c i s] cache_init_inv[OF I]
      by (auto simp: map_upd_triv)
  next
    case (Some ss)
    have "ID ss = i"
      using Some find_Some_member[of "\<lambda>r. Subject r = s \<and> ID r = i" "schemas (init fr)" ss]
      by (simp add: findBySubjectID_def findBySubjectID_loop_find)
    then show ?thesis
      using C \<open>fingerprintIDCache (init fr) (Rabin (Schema c)) = Some i\<close> Some
        CreateSchema_found[of fr Rabin c i s ss] cache_init_inv[OF I]
      by (auto simp: map_upd_triv)
  qed
qed

lemma cache_step_stable:
  assumes I: "store_inv Rabin fr" and k: "fingerprintIDCache fr k = Some i"
  shows "fingerprintIDCache (step Rabin fr cl) k = Some i"
proof (cases cl)
  case (CallCreateSchema s c)
  show ?thesis
    using CreateSchema_cache[OF I, of s c "fst (CreateSchema Rabin fr s c)" "snd (CreateSchema Rabin fr s c)"]
      k CallCreateSchema
    by auto
qed (use assms in \<open>simp_all add: SchemaByID_def SchemaBySubjectVersion_def SubjectVersionsByID_def
      Let_def cache_init_inv\<close>)

lemma cache_foldl_stable:
  "store_inv Rabin fr \<Longrightarrow> fingerprintIDCache fr k = Some i \<Longrightarrow>
     fingerprintIDCache (foldl (step Rabin) fr calls) k = Some i"
  by (induction calls arbitrary: fr) (simp_all add: cache_step_stable store_inv_step)

lemma returned_cached:
  "store_inv Rabin fr \<Longrightarrow> (c, r) \<in> set (returned Rabin fr calls) \<Longrightarrow>
     fingerprintIDCache (foldl (step Rabin) fr calls) (Rabin (Schema c)) = Some (ID r)"
proof (induction calls arbitrary: fr)
  case Nil
  then show ?case by simp
next
  case (Cons cl calls)
  have I': "store_inv Rabin (step Rabin fr cl)" using Cons.prems(1) by (rule store_inv_step)
  show ?case
  proof (cases "(c, r) \<in> set (returned Rabin (step Rabin fr cl) calls)")
    case True
    then show ?thesis using Cons.IH[OF I'] by simp
  next
    case False
    then obtain s where cl: "cl = CallCreateSchema s c" and r: "r = fst (CreateSchema Rabin fr s c)"
      using Cons.prems(2) by (cases cl) auto
    have "fingerprintIDCache (step Rabin fr cl) (Rabin (Schema c)) = Some (ID r)"
      using CreateSchema_cache[OF Cons.prems(1), of s c r "snd (CreateSchema Rabin fr s c)"] cl r
      by simp
    then show ?thesis using cache_foldl_stable[OF I'] by simp
  qed
qed

lemma schemas_step_returned:
  assumes I: "store_inv Rabin fr" and x: "x \<in> set (schemas (step Rabin fr cl))"
  shows "x \<in> set (schemas fr) \<or> schema x \<in> fst ` set (returned Rabin fr [cl])"
proof (cases cl)
  case (CallCreateSchema s c)
  show ?thesis
    using CreateSchema_schemas[OF I, of s c "fst (CreateSchema Rabin fr s c)" "snd (CreateSchema Rabin fr s c)"]
      x CallCreateSchema
    by auto
qed (use assms in \<open>simp_all add: SchemaByID_def SchemaBySubjectVersion_def SubjectVersionsByID_def
      Let_def schemas_init_inv\<close>)

lemma returned_Cons:
  "returned Rabin fr (cl # calls) = returned Rabin fr [cl] @ returned Rabin (step Rabin fr cl) calls"
  by (cases cl) simp_all

lemma schemas_foldl_returned:
  "store_inv Rabin fr \<Longrightarrow> x \<in> set (schemas (foldl (step Rabin) fr calls)) \<Longrightarrow>
     x \<in> set (schemas fr) \<or> schema x \<in> fst ` set (returned Rabin fr calls)"
proof (induction calls arbitrary: fr)
  case Nil
  then show ?case by simp
next
  case (Cons cl calls)
  have I': "store_inv Rabin (step Rabin fr cl)" using Cons.prems(1) by (rule store_inv_step)
  from Cons.IH[OF I'] Cons.prems(2)
  have "x \<in> set (schemas (step Rabin fr cl)) \<or>
        schema x \<in> fst ` set (returned Rabin (step Rabin fr cl) calls)" by simp
  then show ?case
    using schemas_step_returned[OF Cons.prems(1), of x cl]
    by (auto simp: returned_Cons[of Rabin fr cl calls])
qed

lemma CreateSchema_zero_foo:
  "CreateSchema sampleRabin zeroRegistry ''foo'' stringSchema =
     (\<lparr>Subject = ''foo'', Version = 1, ID = 1, schema = stringSchema\<rparr>,
      \<lparr>schemas = [\<lparr>Subject = ''foo'', Version = 1, ID = 1, schema = stringSchema\<rparr>],
       fingerprintIDCache = [6 \<mapsto> 1], idSequence = 1, initOnce = True\<rparr>)"
  by (simp add: zeroRegistry_def CreateSchema_def init_def nextID_def nextVersion_def
      findBySubject_def len_def sampleRabin_def stringSchema_def Let_def)

lemma CreateSchema_foo_bar_int:
  "CreateSchema sampleRabin
      \<lparr>schemas = [\<lparr>Subject = ''foo'', Version = 1, ID = 1, schema = stringSchema\<rparr>],
       fingerprintIDCache = [6 \<mapsto> 1], idSequence = 1, initOnce = True\<rparr> ''bar'' intSchema =
     (\<lparr>Subject = ''bar'', Version = 1, ID = 2, schema = intSchema\<rparr>,
      \<lparr>schemas = [\<lparr>Subject = ''foo'', Version = 1, ID = 1, schema = stringSchema\<rparr>,
                  \<lparr>Subject = ''bar'', Version = 1, ID = 2, schema = intSchema\<rparr>],
       fingerprintIDCache = [6 \<mapsto> 1, 3 \<mapsto> 2], idSequence = 2, initOnce = True\<rparr>)"
  by (simp add: CreateSchema_def init_def nextID_def nextVersion_def
      findBySubject_def findBySubjectID_def len_def sampleRabin_def stringSchema_def intSchema_def Let_def)

lemma returned_foo_bar:
  "returned sampleRabin zeroRegistry
      [CallCreateSchema ''foo'' stringSchema, CallCreateSchema ''bar'' intSchema] =
     [(stringSchema, \<lparr>Subject = ''foo'', Version = 1, ID = 1, schema = stringSchema\<rparr>),
      (intSchema, \<lparr>Subject = ''bar'', Version = 1, ID = 2, schema = intSchema\<rparr>)]"
  by (simp add: CreateSchema_zero_foo CreateSchema_foo_bar_int)

text \<open>
  C4 (id uniqueness and stability). Take any sequence of calls on the zero value and
  assume the fingerprint function injective on the contents registered. Then two
  registrations return the same id exactly when their contents are equal, so different
  contents never share an id. After the whole sequence the cache still maps the
  fingerprint of every registered content to the id that its registration returned
  (the first registration fixed it and no later call changed it), and every stored
  record with that id holds that content.
\<close>

theorem ids_unique_and_stable:
  assumes inj: "inj_on Rabin (set (map (\<lambda>(c, r). Schema c) (returned Rabin zeroRegistry calls)))"
  shows "(\<forall>(c1, r1) \<in> set (returned Rabin zeroRegistry calls).
          \<forall>(c2, r2) \<in> set (returned Rabin zeroRegistry calls).
            (ID r1 = ID r2) = (Schema c1 = Schema c2)) \<and>
         (\<forall>(c, r) \<in> set (returned Rabin zeroRegistry calls).
            fingerprintIDCache (run Rabin calls) (Rabin (Schema c)) = Some (ID r) \<and>
            (\<forall>x \<in> set (schemas (run Rabin calls)). ID x = ID r \<longrightarrow> Schema (schema x) = Schema c))"
proof -
  let ?R = "returned Rabin zeroRegistry calls"
  let ?F = "run Rabin calls"
  have I: "store_inv Rabin ?F" by (rule store_inv_run)
  have cached: "\<And>c r. (c, r) \<in> set ?R \<Longrightarrow> fingerprintIDCache ?F (Rabin (Schema c)) = Some (ID r)"
    using returned_cached[OF store_inv_zero] by (simp add: run_def)
  have injD: "\<And>c r c' r'. (c, r) \<in> set ?R \<Longrightarrow> (c', r') \<in> set ?R \<Longrightarrow>
      Rabin (Schema c) = Rabin (Schema c') \<Longrightarrow> Schema c = Schema c'"
    using inj by (auto simp: inj_on_def) 
  have 1: "\<And>c1 r1 c2 r2. (c1, r1) \<in> set ?R \<Longrightarrow> (c2, r2) \<in> set ?R \<Longrightarrow>
      (ID r1 = ID r2) = (Schema c1 = Schema c2)"
  proof
    fix c1 r1 c2 r2
    assume a: "(c1, r1) \<in> set ?R" "(c2, r2) \<in> set ?R"
    { assume "ID r1 = ID r2"
      then have "Rabin (Schema c1) = Rabin (Schema c2)"
        using store_inv_cache_inj[OF I cached[OF a(1)]] cached[OF a(2)] by simp
      then show "Schema c1 = Schema c2" using injD[OF a] by simp }
    { assume "Schema c1 = Schema c2"
      then show "ID r1 = ID r2" using cached[OF a(1)] cached[OF a(2)] by simp }
  qed
  have 2: "\<And>c r x. (c, r) \<in> set ?R \<Longrightarrow> x \<in> set (schemas ?F) \<Longrightarrow> ID x = ID r \<Longrightarrow>
      Schema (schema x) = Schema c"
  proof -
    fix c r x
    assume a: "(c, r) \<in> set ?R" and x: "x \<in> set (schemas ?F)" and e: "ID x = ID r"
    have "schema x \<in> fst ` set ?R"
      using schemas_foldl_returned[OF store_inv_zero, of x Rabin calls] x
      by (simp add: run_def zeroRegistry_def)
    then obtain r' where b: "(schema x, r') \<in> set ?R" by auto
    have "Rabin (Schema (schema x)) = Rabin (Schema c)"
      using store_inv_cache_inj[OF I store_inv_cached[OF I x]] cached[OF a] e by simp
    then show "Schema (schema x) = Schema c" using injD[OF b a] by simp
  qed
  show ?thesis using 1 2 cached by blast
qed

theorem ids_unique_and_stable_witness:
  "inj_on sampleRabin (set (map (\<lambda>(c, r). Schema c) (returned sampleRabin zeroRegistry
      [CallCreateSchema ''foo'' stringSchema, CallCreateSchema ''bar'' intSchema]))) \<and>
   fingerprintIDCache (run sampleRabin
      [CallCreateSchema ''foo'' stringSchema, CallCreateSchema ''bar'' intSchema])
      (sampleRabin (Schema intSchema)) = Some 2"
proof -
  let ?calls = "[CallCreateSchema ''foo'' stringSchema, CallCreateSchema ''bar'' intSchema]"
  have h: "inj_on sampleRabin (set (map (\<lambda>(c, r). Schema c) (returned sampleRabin zeroRegistry ?calls)))"
    unfolding returned_foo_bar by (simp add: sampleRabin_def stringSchema_def intSchema_def)
  from ids_unique_and_stable[OF h, THEN conjunct2, unfolded returned_foo_bar]
  show ?thesis using h by simp
qed

section \<open>Round trip\<close>

lemma find_conj_filter: "find (\<lambda>x. P x \<and> Q x) xs = find Q (filter P xs)"
  by (induction xs) auto

lemma findBySubjectVersion_member:
  assumes I: "store_inv Rabin fr" and r: "r \<in> set (schemas fr)"
  shows "findBySubjectVersion fr (Subject r) (Version r) = Some r"
proof -
  have "distinct (map int [1..<Suc (length (recs fr (Subject r)))])"
    by (simp add: distinct_map inj_on_def)
  then have d: "distinct (map Version (recs fr (Subject r)))"
    using store_inv_versions[OF I, of "Subject r"] by simp
  have "r \<in> set (recs fr (Subject r))" using r by (simp add: recs_def)
  from find_distinct_key[OF d this]
  show ?thesis
    by (simp add: findBySubjectVersion_def findBySubjectVersion_loop_find find_conj_filter recs_def)
qed

lemma findOneByID_member:
  assumes r: "r \<in> set (schemas fr)"
  shows "\<exists>x \<in> set (schemas fr). ID x = ID r \<and> findOneByID fr (ID r) = Some (schema x)"
proof -
  have "find (\<lambda>x. ID x = ID r) (schemas fr) \<noteq> None"
    using r by (auto simp: find_None_iff)
  then obtain x where "find (\<lambda>x. ID x = ID r) (schemas fr) = Some x" by blast
  then show ?thesis
    using find_Some_member[of "\<lambda>x. ID x = ID r" "schemas fr" x]
    by (auto simp: findOneByID_def findOneByID_loop_find)
qed

text \<open>
  C5 (lookup round trip), as amended. Let \<open>r\<close> be the record that a registration
  returns in a store reached from the zero value. Right after it, and after any further
  calls, the lookup by \<open>r\<close>'s subject and version returns \<open>r\<close>, and the lookup by
  \<open>r\<close>'s id returns a schema with the fingerprint of \<open>r\<close>'s content; the content itself is
  the same when the fingerprint function is injective on the contents stored.
\<close>

theorem lookup_round_trip:
  assumes C: "CreateSchema Rabin (run Rabin calls) s c = (r, fr1)"
  shows "fst (SchemaBySubjectVersion (foldl (step Rabin) fr1 later) (Subject r) (Version r)) = Some r \<and>
         (\<exists>sc. fst (SchemaByID (foldl (step Rabin) fr1 later) (ID r)) = Some sc \<and>
               Rabin (Schema sc) = Rabin (Schema (schema r)) \<and>
               (inj_on Rabin ((\<lambda>x. Schema (schema x)) ` set (schemas (foldl (step Rabin) fr1 later)))
                  \<longrightarrow> Schema sc = Schema (schema r)))"
proof -
  let ?fr2 = "foldl (step Rabin) fr1 later"
  have I1: "store_inv Rabin fr1"
    using store_inv_CreateSchema[OF store_inv_run, of Rabin calls s c] C by simp
  have I2: "store_inv Rabin ?fr2" using I1 by (rule store_inv_foldl)
  have "r \<in> set (schemas fr1)" using CreateSchema_result[OF store_inv_run C] by simp
  then have r: "r \<in> set (schemas ?fr2)"
    using schemas_foldl_prefix[OF I1, of later] by auto
  have 1: "fst (SchemaBySubjectVersion ?fr2 (Subject r) (Version r)) = Some r"
    using findBySubjectVersion_member[OF I2 r]
    by (simp add: SchemaBySubjectVersion_def Let_def findBySubjectVersion_def schemas_init_inv[OF I2])
  obtain x where x: "x \<in> set (schemas ?fr2)" "ID x = ID r" "findOneByID ?fr2 (ID r) = Some (schema x)"
    using findOneByID_member[OF r] by blast
  have 2: "fst (SchemaByID ?fr2 (ID r)) = Some (schema x)"
    using x(3) by (simp add: SchemaByID_def Let_def findOneByID_def schemas_init_inv[OF I2])
  have 3: "Rabin (Schema (schema x)) = Rabin (Schema (schema r))"
    using store_inv_cache_inj[OF I2 store_inv_cached[OF I2 x(1)]] store_inv_cached[OF I2 r] x(2)
    by simp
  have 4: "inj_on Rabin ((\<lambda>x. Schema (schema x)) ` set (schemas ?fr2)) \<longrightarrow>
        Schema (schema x) = Schema (schema r)"
    using 3 x(1) r by (auto simp: inj_on_def)
  show ?thesis using 1 2 3 4 by blast
qed

theorem lookup_round_trip_witness:
  "fst (SchemaBySubjectVersion (snd (CreateSchema sampleRabin (run sampleRabin []) ''foo'' stringSchema))
      ''foo'' 1) = Some \<lparr>Subject = ''foo'', Version = 1, ID = 1, schema = stringSchema\<rparr> \<and>
   (\<exists>sc. fst (SchemaByID (snd (CreateSchema sampleRabin (run sampleRabin []) ''foo'' stringSchema)) 1) = Some sc \<and>
         Schema sc = ''string'')"
proof -
  have z: "run sampleRabin [] = zeroRegistry" by (simp add: run_def)
  have C: "CreateSchema sampleRabin (run sampleRabin []) ''foo'' stringSchema =
     (\<lparr>Subject = ''foo'', Version = 1, ID = 1, schema = stringSchema\<rparr>,
      \<lparr>schemas = [\<lparr>Subject = ''foo'', Version = 1, ID = 1, schema = stringSchema\<rparr>],
       fingerprintIDCache = [6 \<mapsto> 1], idSequence = 1, initOnce = True\<rparr>)"
    unfolding z by (rule CreateSchema_zero_foo)
  have i: "inj_on sampleRabin ((\<lambda>x. Schema (schema x)) ` set (schemas (foldl (step sampleRabin)
      \<lparr>schemas = [\<lparr>Subject = ''foo'', Version = 1, ID = 1, schema = stringSchema\<rparr>],
       fingerprintIDCache = [6 \<mapsto> 1], idSequence = 1, initOnce = True\<rparr> [])))"
    by simp
  from lookup_round_trip[OF C, of "[]"] i show ?thesis
    unfolding C by (auto simp: stringSchema_def)
qed

lemma collision_lookup_by_id:
  "\<forall>Rabin :: string \<Rightarrow> uint64. \<exists>c1 c2. c1 \<noteq> c2 \<and>
     Schema (schema (fst (CreateSchema Rabin (run Rabin [CallCreateSchema ''A'' \<lparr>Schema = c1, Type = 0\<rparr>])
        ''B'' \<lparr>Schema = c2, Type = 0\<rparr>))) = c2 \<and>
     fst (SchemaByID
            (snd (CreateSchema Rabin (run Rabin [CallCreateSchema ''A'' \<lparr>Schema = c1, Type = 0\<rparr>])
               ''B'' \<lparr>Schema = c2, Type = 0\<rparr>))
            (ID (fst (CreateSchema Rabin (run Rabin [CallCreateSchema ''A'' \<lparr>Schema = c1, Type = 0\<rparr>])
               ''B'' \<lparr>Schema = c2, Type = 0\<rparr>))))
       = Some \<lparr>Schema = c1, Type = 0\<rparr>"
proof
  fix Rabin :: "string \<Rightarrow> uint64"
  obtain c1 c2 where d: "c1 \<noteq> c2" and e: "Rabin c1 = Rabin c2"
    using fingerprint_collision[of Rabin] by blast
  have "Schema (schema (fst (CreateSchema Rabin (run Rabin [CallCreateSchema ''A'' \<lparr>Schema = c1, Type = 0\<rparr>])
        ''B'' \<lparr>Schema = c2, Type = 0\<rparr>))) = c2 \<and>
     fst (SchemaByID
            (snd (CreateSchema Rabin (run Rabin [CallCreateSchema ''A'' \<lparr>Schema = c1, Type = 0\<rparr>])
               ''B'' \<lparr>Schema = c2, Type = 0\<rparr>))
            (ID (fst (CreateSchema Rabin (run Rabin [CallCreateSchema ''A'' \<lparr>Schema = c1, Type = 0\<rparr>])
               ''B'' \<lparr>Schema = c2, Type = 0\<rparr>))))
       = Some \<lparr>Schema = c1, Type = 0\<rparr>"
    using e
    by (simp add: run_def zeroRegistry_def CreateSchema_def init_def nextID_def nextVersion_def
        findBySubject_def findBySubjectID_def len_def Let_def SchemaByID_def findOneByID_def)
  then show "\<exists>c1 c2. c1 \<noteq> c2 \<and>
     Schema (schema (fst (CreateSchema Rabin (run Rabin [CallCreateSchema ''A'' \<lparr>Schema = c1, Type = 0\<rparr>])
        ''B'' \<lparr>Schema = c2, Type = 0\<rparr>))) = c2 \<and>
     fst (SchemaByID
            (snd (CreateSchema Rabin (run Rabin [CallCreateSchema ''A'' \<lparr>Schema = c1, Type = 0\<rparr>])
               ''B'' \<lparr>Schema = c2, Type = 0\<rparr>))
            (ID (fst (CreateSchema Rabin (run Rabin [CallCreateSchema ''A'' \<lparr>Schema = c1, Type = 0\<rparr>])
               ''B'' \<lparr>Schema = c2, Type = 0\<rparr>))))
       = Some \<lparr>Schema = c1, Type = 0\<rparr>"
    using d by (intro exI[of _ c1] exI[of _ c2]) simp
qed

text \<open>
  C5 as stated fails. Whatever the fingerprint function, two distinct contents \<open>c1\<close> and
  \<open>c2\<close> share a fingerprint. Register \<open>c1\<close> under subject A and then \<open>c2\<close> under
  subject B: the second registration reuses the id of the first, its record holds
  \<open>c2\<close>, and the lookup by that id returns the first record's schema \<open>c1\<close>.
\<close>

theorem lookup_by_id_fingerprint_collision:
  "\<not> (\<exists>Rabin :: string \<Rightarrow> uint64. \<forall>c1 c2. \<exists>sc.
      fst (SchemaByID
            (snd (CreateSchema Rabin (run Rabin [CallCreateSchema ''A'' \<lparr>Schema = c1, Type = 0\<rparr>])
               ''B'' \<lparr>Schema = c2, Type = 0\<rparr>))
            (ID (fst (CreateSchema Rabin (run Rabin [CallCreateSchema ''A'' \<lparr>Schema = c1, Type = 0\<rparr>])
               ''B'' \<lparr>Schema = c2, Type = 0\<rparr>)))) = Some sc \<and>
      Schema sc =
        Schema (schema (fst (CreateSchema Rabin (run Rabin [CallCreateSchema ''A'' \<lparr>Schema = c1, Type = 0\<rparr>])
               ''B'' \<lparr>Schema = c2, Type = 0\<rparr>))))"
proof
  assume "\<exists>Rabin :: string \<Rightarrow> uint64. \<forall>c1 c2. \<exists>sc.
      fst (SchemaByID
            (snd (CreateSchema Rabin (run Rabin [CallCreateSchema ''A'' \<lparr>Schema = c1, Type = 0\<rparr>])
               ''B'' \<lparr>Schema = c2, Type = 0\<rparr>))
            (ID (fst (CreateSchema Rabin (run Rabin [CallCreateSchema ''A'' \<lparr>Schema = c1, Type = 0\<rparr>])
               ''B'' \<lparr>Schema = c2, Type = 0\<rparr>)))) = Some sc \<and>
      Schema sc =
        Schema (schema (fst (CreateSchema Rabin (run Rabin [CallCreateSchema ''A'' \<lparr>Schema = c1, Type = 0\<rparr>])
               ''B'' \<lparr>Schema = c2, Type = 0\<rparr>)))"
  then obtain Rabin :: "string \<Rightarrow> uint64" where A: "\<forall>c1 c2. \<exists>sc.
      fst (SchemaByID
            (snd (CreateSchema Rabin (run Rabin [CallCreateSchema ''A'' \<lparr>Schema = c1, Type = 0\<rparr>])
               ''B'' \<lparr>Schema = c2, Type = 0\<rparr>))
            (ID (fst (CreateSchema Rabin (run Rabin [CallCreateSchema ''A'' \<lparr>Schema = c1, Type = 0\<rparr>])
               ''B'' \<lparr>Schema = c2, Type = 0\<rparr>)))) = Some sc \<and>
      Schema sc =
        Schema (schema (fst (CreateSchema Rabin (run Rabin [CallCreateSchema ''A'' \<lparr>Schema = c1, Type = 0\<rparr>])
               ''B'' \<lparr>Schema = c2, Type = 0\<rparr>)))"
    by blast
  let ?r = "\<lambda>c1 c2. fst (CreateSchema Rabin
      (run Rabin [CallCreateSchema ''A'' \<lparr>Schema = c1, Type = 0\<rparr>]) ''B'' \<lparr>Schema = c2, Type = 0\<rparr>)"
  let ?fr = "\<lambda>c1 c2. snd (CreateSchema Rabin
      (run Rabin [CallCreateSchema ''A'' \<lparr>Schema = c1, Type = 0\<rparr>]) ''B'' \<lparr>Schema = c2, Type = 0\<rparr>)"
  have "\<exists>c1 c2. c1 \<noteq> c2 \<and> Schema (schema (?r c1 c2)) = c2 \<and>
      fst (SchemaByID (?fr c1 c2) (ID (?r c1 c2))) = Some \<lparr>Schema = c1, Type = 0\<rparr>"
    using collision_lookup_by_id by (rule spec)
  then obtain c1 c2 where d: "c1 \<noteq> c2" and B1: "Schema (schema (?r c1 c2)) = c2"
    and B2: "fst (SchemaByID (?fr c1 c2) (ID (?r c1 c2))) = Some \<lparr>Schema = c1, Type = 0\<rparr>"
    by (elim exE conjE)
  have "\<exists>sc. fst (SchemaByID (?fr c1 c2) (ID (?r c1 c2))) = Some sc \<and>
      Schema sc = Schema (schema (?r c1 c2))"
    using A by (elim allE)
  then obtain sc where C1: "fst (SchemaByID (?fr c1 c2) (ID (?r c1 c2))) = Some sc"
    and C2: "Schema sc = Schema (schema (?r c1 c2))"
    by (elim exE conjE)
  have "sc = \<lparr>Schema = c1, Type = 0\<rparr>" using B2 C1 by simp
  then have "c1 = c2" using C2 B1 by simp
  then show False using d by simp
qed

section \<open>Lookups\<close>

lemma find_first:
  "(\<forall>x \<in> set xs. \<not> P x) \<Longrightarrow> P r \<Longrightarrow> find P (xs @ r # ys) = Some r"
  by (induction xs) auto

lemma run_shared_id:
  "run sampleRabin [CallCreateSchema ''foo'' stringSchema,
                    CallCreateSchema ''bar'' \<lparr>Schema = ''string'', Type = 1\<rparr>] =
     \<lparr>schemas = [\<lparr>Subject = ''foo'', Version = 1, ID = 1, schema = stringSchema\<rparr>,
                 \<lparr>Subject = ''bar'', Version = 1, ID = 1, schema = \<lparr>Schema = ''string'', Type = 1\<rparr>\<rparr>],
      fingerprintIDCache = [6 \<mapsto> 1], idSequence = 1, initOnce = True\<rparr>"
  by (simp add: run_def zeroRegistry_def CreateSchema_def init_def nextID_def nextVersion_def
      findBySubject_def findBySubjectID_def len_def sampleRabin_def stringSchema_def Let_def)

text \<open>
  C7 (first match wins for the lookup by id). In every store reached from the zero
  value: when some record has the id, \<open>SchemaByID\<close> returns the schema of the first
  such record in insertion order, whatever records with the same id (of other
  subjects) follow it; when no record has the id it reports absence (\<open>None\<close>, no
  error is raised); either way the records, the cache and the id counter are as
  before.
\<close>

theorem SchemaByID_first_match:
  "(schemas (run Rabin calls) = xs @ r # ys \<and> ID r = i \<and> (\<forall>x \<in> set xs. ID x \<noteq> i)
      \<longrightarrow> fst (SchemaByID (run Rabin calls) i) = Some (schema r)) \<and>
   ((\<forall>x \<in> set (schemas (run Rabin calls)). ID x \<noteq> i)
      \<longrightarrow> fst (SchemaByID (run Rabin calls) i) = None) \<and>
   schemas (snd (SchemaByID (run Rabin calls) i)) = schemas (run Rabin calls) \<and>
   fingerprintIDCache (snd (SchemaByID (run Rabin calls) i)) = fingerprintIDCache (run Rabin calls) \<and>
   idSequence (snd (SchemaByID (run Rabin calls) i)) = idSequence (run Rabin calls)"
proof -
  let ?fr = "run Rabin calls"
  have I: "store_inv Rabin ?fr" by (rule store_inv_run)
  have f: "fst (SchemaByID ?fr i) = map_option schema (find (\<lambda>x. ID x = i) (schemas ?fr))"
    by (simp add: SchemaByID_def Let_def findOneByID_def findOneByID_loop_find schemas_init_inv[OF I])
  have 1: "schemas ?fr = xs @ r # ys \<and> ID r = i \<and> (\<forall>x \<in> set xs. ID x \<noteq> i)
      \<longrightarrow> fst (SchemaByID ?fr i) = Some (schema r)"
    using find_first[of xs "\<lambda>x. ID x = i" r ys] by (simp add: f)
  have 2: "(\<forall>x \<in> set (schemas ?fr). ID x \<noteq> i) \<longrightarrow> fst (SchemaByID ?fr i) = None"
    by (simp add: f find_None_iff)
  have 3: "snd (SchemaByID ?fr i) = ?fr\<lparr>initOnce := True\<rparr>"
    by (simp add: SchemaByID_def Let_def init_store_inv[OF I])
  show ?thesis using 1 2 by (simp add: 3)
qed

theorem SchemaByID_first_match_witness:
  "fst (SchemaByID (run sampleRabin [CallCreateSchema ''foo'' stringSchema,
                    CallCreateSchema ''bar'' \<lparr>Schema = ''string'', Type = 1\<rparr>]) 1) = Some stringSchema \<and>
   fst (SchemaByID (run sampleRabin [CallCreateSchema ''foo'' stringSchema,
                    CallCreateSchema ''bar'' \<lparr>Schema = ''string'', Type = 1\<rparr>]) 999999) = None"
proof -
  let ?calls = "[CallCreateSchema ''foo'' stringSchema,
                    CallCreateSchema ''bar'' \<lparr>Schema = ''string'', Type = 1\<rparr>]"
  let ?r = "\<lparr>Subject = ''foo'', Version = 1, ID = 1, schema = stringSchema\<rparr>"
  have h1: "schemas (run sampleRabin ?calls) =
      [] @ ?r # [\<lparr>Subject = ''bar'', Version = 1, ID = 1, schema = \<lparr>Schema = ''string'', Type = 1\<rparr>\<rparr>]
      \<and> ID ?r = 1 \<and> (\<forall>x \<in> set []. ID x \<noteq> (1::int))"
    by (simp add: run_shared_id)
  have h2: "\<forall>x \<in> set (schemas (run sampleRabin ?calls)). ID x \<noteq> 999999"
    by (simp add: run_shared_id)
  from SchemaByID_first_match[of sampleRabin ?calls "[]" ?r _ 1, THEN conjunct1, THEN mp, OF h1]
       SchemaByID_first_match[of sampleRabin ?calls _ _ _ 999999, THEN conjunct2, THEN conjunct1, THEN mp, OF h2]
  show ?thesis by simp
qed

lemma elems_findAllByID:
  "elems (findAllByID fr i) = filter (\<lambda>r. ID r = i) (schemas fr)"
  by (simp add: findAllByID_eq)

lemma subjectVersionsByID_response:
  assumes "Method r = ''GET''" and "index (Split (EscapedPath r) CHR ''/'') 3 = Some tok"
    and "Atoi tok = Inr i"
  shows "subjectVersionsByID lib fr r =
           Some (fs_json lib (SubjectSchemas (findAllByID (init fr) i)), init fr)"
  using assms by (simp add: subjectVersionsByID_def SubjectVersionsByID_def Let_def)

lemma Split_ids_7_versions:
  "Split ''/schemas/ids/7/versions'' CHR ''/'' = ['''', ''schemas'', ''ids'', ''7'', ''versions'']"
  by simp

lemma Atoi_7: "Atoi ''7'' = Inr 7"
  by (simp add: Atoi_def isDigit_def)

text \<open>
  C6 (all versions by id), as amended. In every store reached from the zero value,
  \<open>SubjectVersionsByID\<close> returns exactly the records with the id, of all subjects, in
  insertion order; when no record has the id the result is the nil slice, an empty
  sequence. For \<^verbatim>\<open>GET /schemas/ids/{id}/versions\<close> with an id that no record has, the
  response has status 200 and its body is the JSON value \<^verbatim>\<open>null\<close>: not an error, and
  not an empty array.
\<close>

theorem subject_versions_by_id:
  "elems (fst (SubjectVersionsByID (run Rabin calls) i)) =
       filter (\<lambda>x. ID x = i) (schemas (run Rabin calls)) \<and>
   ((\<forall>x \<in> set (schemas (run Rabin calls)). ID x \<noteq> i)
      \<longrightarrow> fst (SubjectVersionsByID (run Rabin calls) i) = NilSlice) \<and>
   (Method r = ''GET'' \<and> index (Split (EscapedPath r) CHR ''/'') 3 = Some tok \<and> Atoi tok = Inr i \<and>
    (\<forall>x \<in> set (schemas fr). ID x \<noteq> i)
      \<longrightarrow> (\<exists>fr'. subjectVersionsByID lib fr r =
             Some (\<lparr>status = 200, body = JSONBody JNull\<rparr>, fr')))"
proof -
  let ?fr = "run Rabin calls"
  have I: "store_inv Rabin ?fr" by (rule store_inv_run)
  have 1: "fst (SubjectVersionsByID ?fr i) =
     (if filter (\<lambda>r. ID r = i) (schemas ?fr) = [] then NilSlice
      else Slice (filter (\<lambda>r. ID r = i) (schemas ?fr)))"
    by (simp add: SubjectVersionsByID_def Let_def findAllByID_eq schemas_init_inv[OF I])
  have 2: "(\<forall>x \<in> set (schemas ?fr). ID x \<noteq> i) \<longrightarrow> filter (\<lambda>r. ID r = i) (schemas ?fr) = []"
    by (simp add: filter_empty_conv)
  have 3: "Method r = ''GET'' \<and> index (Split (EscapedPath r) CHR ''/'') 3 = Some tok \<and>
      Atoi tok = Inr i \<and> (\<forall>x \<in> set (schemas fr). ID x \<noteq> i)
      \<longrightarrow> (\<exists>fr'. subjectVersionsByID lib fr r =
             Some (\<lparr>status = 200, body = JSONBody JNull\<rparr>, fr'))"
  proof
    assume a: "Method r = ''GET'' \<and> index (Split (EscapedPath r) CHR ''/'') 3 = Some tok \<and>
      Atoi tok = Inr i \<and> (\<forall>x \<in> set (schemas fr). ID x \<noteq> i)"
    then have "filter (\<lambda>r. ID r = i) (schemas (init fr)) = []"
      by (auto simp: filter_empty_conv schemas_init)
    then have "findAllByID (init fr) i = NilSlice" by (simp add: findAllByID_eq)
    then show "\<exists>fr'. subjectVersionsByID lib fr r =
             Some (\<lparr>status = 200, body = JSONBody JNull\<rparr>, fr')"
      using a subjectVersionsByID_response[of r tok i lib fr]
      by (simp add: fs_json_def StatusOK_def)
  qed
  show ?thesis using 1 2 3 by simp
qed

theorem subject_versions_by_id_witness:
  "elems (fst (SubjectVersionsByID (run sampleRabin [CallCreateSchema ''foo'' stringSchema,
                    CallCreateSchema ''bar'' \<lparr>Schema = ''string'', Type = 1\<rparr>]) 1)) =
     [\<lparr>Subject = ''foo'', Version = 1, ID = 1, schema = stringSchema\<rparr>,
      \<lparr>Subject = ''bar'', Version = 1, ID = 1, schema = \<lparr>Schema = ''string'', Type = 1\<rparr>\<rparr>] \<and>
   fst (SubjectVersionsByID (run sampleRabin [CallCreateSchema ''foo'' stringSchema,
                    CallCreateSchema ''bar'' \<lparr>Schema = ''string'', Type = 1\<rparr>]) 7) = NilSlice \<and>
   (\<exists>fr'. subjectVersionsByID sampleLib zeroRegistry
      \<lparr>Method = ''GET'', EscapedPath = ''/schemas/ids/7/versions'', Body = Inl (LibError ''EOF'')\<rparr> =
             Some (\<lparr>status = 200, body = JSONBody JNull\<rparr>, fr'))"
proof -
  let ?calls = "[CallCreateSchema ''foo'' stringSchema,
                    CallCreateSchema ''bar'' \<lparr>Schema = ''string'', Type = 1\<rparr>]"
  let ?r = "\<lparr>Method = ''GET'', EscapedPath = ''/schemas/ids/7/versions'', Body = Inl (LibError ''EOF'')\<rparr>"
  have h: "Method ?r = ''GET'' \<and> index (Split (EscapedPath ?r) CHR ''/'') 3 = Some ''7'' \<and>
      Atoi ''7'' = Inr 7 \<and> (\<forall>x \<in> set (schemas zeroRegistry). ID x \<noteq> 7)"
    by (simp add: index_def Atoi_7 zeroRegistry_def)
  have n: "\<forall>x \<in> set (schemas (run sampleRabin ?calls)). ID x \<noteq> 7"
    by (simp add: run_shared_id)
  from subject_versions_by_id[of sampleRabin ?calls 1, THEN conjunct1]
       subject_versions_by_id[THEN conjunct2, THEN conjunct1, THEN mp, OF n]
       subject_versions_by_id[THEN conjunct2, THEN conjunct2, THEN mp, OF h]
  show ?thesis by (simp add: run_shared_id)
qed

text \<open>
  C6 as stated fails on the wire. On the zero value, \<^verbatim>\<open>GET /schemas/ids/7/versions\<close> is
  answered with status 200 and the body \<^verbatim>\<open>null\<close>, which is not the empty array:
  \<open>findAllByID\<close> returns the nil slice it started from, and \<^verbatim>\<open>json.Marshal\<close> writes a nil
  slice as \<^verbatim>\<open>null\<close>.
\<close>

theorem empty_versions_wire_null:
  "schemasIdsHandler sampleLib zeroRegistry
      \<lparr>Method = ''GET'', EscapedPath = ''/schemas/ids/7/versions'', Body = Inl (LibError ''EOF'')\<rparr> =
     Some (\<lparr>status = 200, body = JSONBody JNull\<rparr>,
           \<lparr>schemas = [], fingerprintIDCache = Map.empty, idSequence = 0, initOnce = True\<rparr>) \<and>
   JSONBody JNull \<noteq> JSONBody (JArray [])"
  by (simp add: schemasIdsHandler_def Split_ids_7_versions subjectVersionsByID_def index_def Atoi_7
      SubjectVersionsByID_def init_def zeroRegistry_def findAllByID_def fs_json_def StatusOK_def Let_def)

section \<open>Wire errors\<close>

lemma ParseUint_loop_nondigit:
  "\<exists>ch \<in> set ds. \<not> isDigit ch \<Longrightarrow> \<exists>e. ParseUint_loop n ds = Inl e"
  by (induction ds arbitrary: n) auto

lemma Atoi_nondigit:
  assumes "\<exists>ch \<in> set tok. \<not> isDigit ch \<and> ch \<noteq> CHR ''-'' \<and> ch \<noteq> CHR ''+''"
  shows "\<exists>e. Atoi tok = Inl e"
proof (cases tok)
  case Nil
  then show ?thesis by (simp add: Atoi_def)
next
  case (Cons c cs)
  let ?ds = "if c = CHR ''-'' \<or> c = CHR ''+'' then cs else tok"
  have "\<exists>ch \<in> set ?ds. \<not> isDigit ch" using assms Cons by auto
  then obtain e where "ParseUint_loop 0 ?ds = Inl e"
    using ParseUint_loop_nondigit by blast
  then show ?thesis using Cons by (auto simp: Atoi_def Let_def)
qed

lemma schemaByID_parse_error:
  assumes "Method r = ''GET''" and "index (Split (EscapedPath r) CHR ''/'') 3 = Some tok"
    and "Atoi tok = Inl e"
  shows "schemaByID lib fr r =
     Some (\<lparr>status = 500, body = JSONBody (JObject [(''error_code'', JNumber 50001),
              (''message'', JErrorText (Errorf ''invalid schema ID: '' e))])\<rparr>, fr)"
  using assms
  by (simp add: schemaByID_def fs_error_def errorWithCode_def StatusInternalServerError_def)

lemma subjectVersionsByID_parse_error:
  assumes "Method r = ''GET''" and "index (Split (EscapedPath r) CHR ''/'') 3 = Some tok"
    and "Atoi tok = Inl e"
  shows "subjectVersionsByID lib fr r =
     Some (\<lparr>status = 500, body = JSONBody (JObject [(''error_code'', JNumber 50001),
              (''message'', JErrorText (Errorf ''invalid schema ID: '' e))])\<rparr>, fr)"
  using assms
  by (simp add: subjectVersionsByID_def fs_error_def errorWithCode_def StatusInternalServerError_def)

lemma schemaBySubjectVersion_parse_error:
  assumes "Method r = ''GET''" and "index (Split (EscapedPath r) CHR ''/'') 4 = Some tok"
    and "Atoi tok = Inl e"
  shows "schemaBySubjectVersion lib fr r =
     Some (\<lparr>status = 500, body = JSONBody (JObject [(''error_code'', JNumber 50001),
              (''message'', JErrorText (Errorf ''invalid schema version: '' e))])\<rparr>, fr)"
  using assms
  by (simp add: schemaBySubjectVersion_def fs_error_def errorWithCode_def StatusInternalServerError_def)

lemma createSchema_decode_error:
  assumes "Method r = ''POST''" and "Body r = Inl e"
  shows "createSchema lib fr r =
     Some (\<lparr>status = 500, body = JSONBody (JObject [(''error_code'', JNumber 50001),
              (''message'', JErrorText e)])\<rparr>, fr)"
  using assms
  by (simp add: createSchema_def fs_error_def errorWithCode_def StatusInternalServerError_def)

lemma schemaByID_lookup_none:
  assumes "Method r = ''GET''" and "index (Split (EscapedPath r) CHR ''/'') 3 = Some tok"
    and "Atoi tok = Inr i" and "fst (SchemaByID fr i) = None"
  shows "schemaByID lib fr r =
     Some (\<lparr>status = 404, body = JSONBody (JObject [(''error_code'', JNumber 40403),
              (''message'', JErrorText (New ''schema not found''))])\<rparr>, init fr)"
  using assms
  by (simp add: schemaByID_def errorWithCode_def StatusNotFound_def errorCodeSchemaNotFound_def
      SchemaByID_def Let_def)

lemma schemaBySubjectVersion_lookup_none:
  assumes "Method r = ''GET''" and "index (Split (EscapedPath r) CHR ''/'') 4 = Some tok"
    and "Atoi tok = Inr v" and "index (Split (EscapedPath r) CHR ''/'') 2 = Some subject"
    and "fst (SchemaBySubjectVersion fr subject v) = None"
  shows "schemaBySubjectVersion lib fr r =
     Some (\<lparr>status = 404, body = JSONBody (JObject [(''error_code'', JNumber 40401),
              (''message'', JErrorText (New ''subject not found''))])\<rparr>, init fr)"
  using assms
  by (simp add: schemaBySubjectVersion_def errorWithCode_def StatusNotFound_def
      errorCodeSubjectNotFound_def SchemaBySubjectVersion_def Let_def)

lemma errorBody_iff:
  "errorBody b \<longleftrightarrow>
     (\<exists>code err. b = JSONBody (JObject [(''error_code'', JNumber code), (''message'', JErrorText err)]))"
  by (induction b rule: errorBody.induct) auto

lemma errorBody_errorWithCode: "errorBody (body (errorWithCode st code err))"
  by (simp add: errorWithCode_def)

lemma fs_json_shape:
  "status (fs_json lib v) = StatusOK \<or> errorBody (body (fs_json lib v))"
  by (cases "Marshal lib v") (simp_all add: fs_json_def fs_error_def errorBody_errorWithCode)

lemma createSchema_shape:
  "createSchema lib fr r = Some (resp, fr') \<Longrightarrow>
     status resp = StatusOK \<or> resp = NotFound \<or> errorBody (body resp)"
  using fs_json_shape[of lib]
  by (auto simp: createSchema_def fs_error_def errorBody_errorWithCode
      split: if_splits sum.splits option.splits prod.splits)

lemma schemaBySubjectVersion_shape:
  "schemaBySubjectVersion lib fr r = Some (resp, fr') \<Longrightarrow>
     status resp = StatusOK \<or> resp = NotFound \<or> errorBody (body resp)"
  using fs_json_shape[of lib]
  by (auto simp: schemaBySubjectVersion_def fs_error_def errorBody_errorWithCode
      split: if_splits sum.splits option.splits prod.splits)

lemma schemaByID_shape:
  "schemaByID lib fr r = Some (resp, fr') \<Longrightarrow>
     status resp = StatusOK \<or> resp = NotFound \<or> errorBody (body resp)"
  using fs_json_shape[of lib]
  by (auto simp: schemaByID_def fs_error_def errorBody_errorWithCode
      split: if_splits sum.splits option.splits prod.splits)

lemma subjectVersionsByID_shape:
  "subjectVersionsByID lib fr r = Some (resp, fr') \<Longrightarrow>
     status resp = StatusOK \<or> resp = NotFound \<or> errorBody (body resp)"
  using fs_json_shape[of lib]
  by (auto simp: subjectVersionsByID_def fs_error_def errorBody_errorWithCode
      split: if_splits sum.splits option.splits prod.splits)

lemma handlers_shape:
  assumes "schemasIdsHandler lib fr r = Some (resp, fr') \<or> subjectsHandler lib fr r = Some (resp, fr')"
  shows "status resp = StatusOK \<or> resp = NotFound \<or> errorBody (body resp)"
  using assms createSchema_shape[of lib fr r resp fr'] schemaBySubjectVersion_shape[of lib fr r resp fr']
    schemaByID_shape[of lib fr r resp fr'] subjectVersionsByID_shape[of lib fr r resp fr']
  by (auto simp: schemasIdsHandler_def subjectsHandler_def Let_def split: if_splits)

lemma store_inv_version_ge:
  assumes I: "store_inv Rabin fr" and x: "x \<in> set (schemas fr)"
  shows "1 \<le> Version x"
proof -
  have "x \<in> set (recs fr (Subject x))" using x by (simp add: recs_def)
  then have "Version x \<in> set (map Version (recs fr (Subject x)))" by simp
  then have "Version x \<in> set (map int [1..<Suc (length (recs fr (Subject x)))])"
    using store_inv_versions[OF I, of "Subject x"] by simp
  then show ?thesis by auto
qed

lemma SchemaByID_none:
  "\<forall>x \<in> set (schemas fr). ID x \<noteq> n \<Longrightarrow> fst (SchemaByID fr n) = None"
  by (auto simp: SchemaByID_def Let_def findOneByID_def findOneByID_loop_find find_None_iff
      schemas_init)

lemma SchemaBySubjectVersion_none:
  "\<forall>x \<in> set (schemas fr). Subject x = s \<longrightarrow> Version x \<noteq> n \<Longrightarrow>
     fst (SchemaBySubjectVersion fr s n) = None"
  by (auto simp: SchemaBySubjectVersion_def Let_def findBySubjectVersion_def
      findBySubjectVersion_loop_find find_None_iff schemas_init)

lemma Atoi_minus5: "Atoi ''-5'' = Inr (- 5)"
  by (simp add: Atoi_def isDigit_def)

lemma Atoi_0: "Atoi ''0'' = Inr 0"
  by (simp add: Atoi_def isDigit_def)

lemma Atoi_abc: "Atoi ''abc'' = Inl (NumError ''Atoi'' ''abc'' ErrSyntax)"
  by (simp add: Atoi_def isDigit_def)

lemma Atoi_1: "Atoi ''1'' = Inr 1"
  by (simp add: Atoi_def isDigit_def)

lemma Atoi_2: "Atoi ''2'' = Inr 2"
  by (simp add: Atoi_def isDigit_def)

lemma Atoi_x: "Atoi ''x'' = Inl (NumError ''Atoi'' ''x'' ErrSyntax)"
  by (simp add: Atoi_def isDigit_def)

text \<open>
  C8 (wire error mapping). Every response of the two registered handlers is a success
  (status 200), the transport-level \<^verbatim>\<open>http.NotFound\<close> (wrong method or path shape, a
  plain text body), or has the error body \<^verbatim>\<open>{"error_code": int, "message": string}\<close>.
  A subject+version lookup that finds nothing answers 404 with code 40401; an id lookup
  that finds nothing answers 404 with code 40403; a version or id segment that
  \<^verbatim>\<open>strconv.Atoi\<close> rejects, and a request body that cannot be decoded, answer 500 with
  code 50001. A segment with a byte that is neither a digit nor a sign is rejected.
\<close>

theorem wire_error_mapping:
  "(schemasIdsHandler lib fr r = Some (resp, fr') \<or> subjectsHandler lib fr r = Some (resp, fr')
      \<longrightarrow> status resp = StatusOK \<or> resp = NotFound \<or> errorBody (body resp)) \<and>
   (Method r = ''GET'' \<and> index (Split (EscapedPath r) CHR ''/'') 4 = Some tok \<and> Atoi tok = Inr v \<and>
    index (Split (EscapedPath r) CHR ''/'') 2 = Some subject \<and>
    fst (SchemaBySubjectVersion fr subject v) = None
      \<longrightarrow> schemaBySubjectVersion lib fr r =
            Some (\<lparr>status = 404, body = JSONBody (JObject [(''error_code'', JNumber 40401),
                     (''message'', JErrorText (New ''subject not found''))])\<rparr>, init fr)) \<and>
   (Method r = ''GET'' \<and> index (Split (EscapedPath r) CHR ''/'') 3 = Some tok \<and> Atoi tok = Inr v \<and>
    fst (SchemaByID fr v) = None
      \<longrightarrow> schemaByID lib fr r =
            Some (\<lparr>status = 404, body = JSONBody (JObject [(''error_code'', JNumber 40403),
                     (''message'', JErrorText (New ''schema not found''))])\<rparr>, init fr)) \<and>
   (Method r = ''GET'' \<and> index (Split (EscapedPath r) CHR ''/'') 4 = Some tok \<and> Atoi tok = Inl e
      \<longrightarrow> schemaBySubjectVersion lib fr r =
            Some (\<lparr>status = 500, body = JSONBody (JObject [(''error_code'', JNumber 50001),
                     (''message'', JErrorText (Errorf ''invalid schema version: '' e))])\<rparr>, fr)) \<and>
   (Method r = ''GET'' \<and> index (Split (EscapedPath r) CHR ''/'') 3 = Some tok \<and> Atoi tok = Inl e
      \<longrightarrow> schemaByID lib fr r =
            Some (\<lparr>status = 500, body = JSONBody (JObject [(''error_code'', JNumber 50001),
                     (''message'', JErrorText (Errorf ''invalid schema ID: '' e))])\<rparr>, fr) \<and>
          subjectVersionsByID lib fr r =
            Some (\<lparr>status = 500, body = JSONBody (JObject [(''error_code'', JNumber 50001),
                     (''message'', JErrorText (Errorf ''invalid schema ID: '' e))])\<rparr>, fr)) \<and>
   (Method r = ''POST'' \<and> Body r = Inl e
      \<longrightarrow> createSchema lib fr r =
            Some (\<lparr>status = 500, body = JSONBody (JObject [(''error_code'', JNumber 50001),
                     (''message'', JErrorText e)])\<rparr>, fr)) \<and>
   ((\<exists>ch \<in> set tok. \<not> isDigit ch \<and> ch \<noteq> CHR ''-'' \<and> ch \<noteq> CHR ''+'') \<longrightarrow> (\<exists>e. Atoi tok = Inl e))"
proof -
  have 1: "schemasIdsHandler lib fr r = Some (resp, fr') \<or> subjectsHandler lib fr r = Some (resp, fr')
      \<longrightarrow> status resp = StatusOK \<or> resp = NotFound \<or> errorBody (body resp)"
    using handlers_shape[of lib fr r resp fr'] by simp
  have 2: "(\<exists>ch \<in> set tok. \<not> isDigit ch \<and> ch \<noteq> CHR ''-'' \<and> ch \<noteq> CHR ''+'') \<longrightarrow> (\<exists>e. Atoi tok = Inl e)"
    using Atoi_nondigit[of tok] by simp
  show ?thesis
    using 1 2
    by (simp add: schemaBySubjectVersion_lookup_none schemaByID_lookup_none
        schemaBySubjectVersion_parse_error schemaByID_parse_error
        subjectVersionsByID_parse_error createSchema_decode_error)
qed

theorem wire_error_mapping_witness:
  "errorBody (JSONBody (JObject [(''error_code'', JNumber 50001),
              (''message'', JErrorText (Errorf ''invalid schema ID: ''
                                           (NumError ''Atoi'' ''abc'' ErrSyntax)))])) \<and>
   schemaBySubjectVersion sampleLib zeroRegistry
      \<lparr>Method = ''GET'', EscapedPath = ''/subjects/foo/versions/1'', Body = Inl (LibError ''EOF'')\<rparr> =
     Some (\<lparr>status = 404, body = JSONBody (JObject [(''error_code'', JNumber 40401),
              (''message'', JErrorText (New ''subject not found''))])\<rparr>, init zeroRegistry) \<and>
   schemaByID sampleLib zeroRegistry
      \<lparr>Method = ''GET'', EscapedPath = ''/schemas/ids/2'', Body = Inl (LibError ''EOF'')\<rparr> =
     Some (\<lparr>status = 404, body = JSONBody (JObject [(''error_code'', JNumber 40403),
              (''message'', JErrorText (New ''schema not found''))])\<rparr>, init zeroRegistry) \<and>
   schemaBySubjectVersion sampleLib zeroRegistry
      \<lparr>Method = ''GET'', EscapedPath = ''/subjects/foo/versions/x'', Body = Inl (LibError ''EOF'')\<rparr> =
     Some (\<lparr>status = 500, body = JSONBody (JObject [(''error_code'', JNumber 50001),
              (''message'', JErrorText (Errorf ''invalid schema version: ''
                                           (NumError ''Atoi'' ''x'' ErrSyntax)))])\<rparr>, zeroRegistry) \<and>
   schemaByID sampleLib zeroRegistry
      \<lparr>Method = ''GET'', EscapedPath = ''/schemas/ids/abc'', Body = Inl (LibError ''EOF'')\<rparr> =
     Some (\<lparr>status = 500, body = JSONBody (JObject [(''error_code'', JNumber 50001),
              (''message'', JErrorText (Errorf ''invalid schema ID: ''
                                           (NumError ''Atoi'' ''abc'' ErrSyntax)))])\<rparr>,
           zeroRegistry) \<and>
   createSchema sampleLib zeroRegistry
      \<lparr>Method = ''POST'', EscapedPath = ''/subjects/foo/versions'', Body = Inl (LibError ''EOF'')\<rparr> =
     Some (\<lparr>status = 500, body = JSONBody (JObject [(''error_code'', JNumber 50001),
              (''message'', JErrorText (LibError ''EOF''))])\<rparr>, zeroRegistry) \<and>
   (\<exists>e. Atoi ''abc'' = Inl e)"
proof -
  let ?sv1 = "\<lparr>Method = ''GET'', EscapedPath = ''/subjects/foo/versions/1'', Body = Inl (LibError ''EOF'')\<rparr>"
  let ?id2 = "\<lparr>Method = ''GET'', EscapedPath = ''/schemas/ids/2'', Body = Inl (LibError ''EOF'')\<rparr>"
  let ?svx = "\<lparr>Method = ''GET'', EscapedPath = ''/subjects/foo/versions/x'', Body = Inl (LibError ''EOF'')\<rparr>"
  let ?abc = "\<lparr>Method = ''GET'', EscapedPath = ''/schemas/ids/abc'', Body = Inl (LibError ''EOF'')\<rparr>"
  let ?post = "\<lparr>Method = ''POST'', EscapedPath = ''/subjects/foo/versions'', Body = Inl (LibError ''EOF'')\<rparr>"
  let ?e500 = "\<lparr>status = 500, body = JSONBody (JObject [(''error_code'', JNumber 50001),
              (''message'', JErrorText (Errorf ''invalid schema ID: ''
                                           (NumError ''Atoi'' ''abc'' ErrSyntax)))])\<rparr>"
  note T = wire_error_mapping
  have h5: "Method ?abc = ''GET'' \<and> index (Split (EscapedPath ?abc) CHR ''/'') 3 = Some ''abc'' \<and>
      Atoi ''abc'' = Inl (NumError ''Atoi'' ''abc'' ErrSyntax)"
    by (simp add: index_def Atoi_abc)
  have c5: "schemaByID sampleLib zeroRegistry ?abc = Some (?e500, zeroRegistry)"
    using T[THEN conjunct2, THEN conjunct2, THEN conjunct2, THEN conjunct2, THEN conjunct1,
          THEN mp, OF h5, THEN conjunct1] .
  have h1: "schemasIdsHandler sampleLib zeroRegistry ?abc = Some (?e500, zeroRegistry) \<or>
      subjectsHandler sampleLib zeroRegistry ?abc = Some (?e500, zeroRegistry)"
    using c5 by (simp add: schemasIdsHandler_def)
  have c1: "errorBody (body ?e500)"
    using T[THEN conjunct1, THEN mp, OF h1] by (simp add: StatusOK_def NotFound_def)
  have h2: "Method ?sv1 = ''GET'' \<and> index (Split (EscapedPath ?sv1) CHR ''/'') 4 = Some ''1'' \<and>
      Atoi ''1'' = Inr 1 \<and> index (Split (EscapedPath ?sv1) CHR ''/'') 2 = Some ''foo'' \<and>
      fst (SchemaBySubjectVersion zeroRegistry ''foo'' 1) = None"
    by (simp add: index_def Atoi_1 SchemaBySubjectVersion_def init_def zeroRegistry_def
        findBySubjectVersion_def)
  have h3: "Method ?id2 = ''GET'' \<and> index (Split (EscapedPath ?id2) CHR ''/'') 3 = Some ''2'' \<and>
      Atoi ''2'' = Inr 2 \<and> fst (SchemaByID zeroRegistry 2) = None"
    by (simp add: index_def Atoi_2 SchemaByID_def init_def zeroRegistry_def findOneByID_def)
  have h4: "Method ?svx = ''GET'' \<and> index (Split (EscapedPath ?svx) CHR ''/'') 4 = Some ''x'' \<and>
      Atoi ''x'' = Inl (NumError ''Atoi'' ''x'' ErrSyntax)"
    by (simp add: index_def Atoi_x)
  have h6: "Method ?post = ''POST'' \<and> Body ?post = Inl (LibError ''EOF'')"
    by simp
  have h7: "\<exists>ch \<in> set ''abc''. \<not> isDigit ch \<and> ch \<noteq> CHR ''-'' \<and> ch \<noteq> CHR ''+''"
    by (simp add: isDigit_def)
  from c1 c5
    T[THEN conjunct2, THEN conjunct1, THEN mp, OF h2]
    T[THEN conjunct2, THEN conjunct2, THEN conjunct1, THEN mp, OF h3]
    T[THEN conjunct2, THEN conjunct2, THEN conjunct2, THEN conjunct1, THEN mp, OF h4]
    T[THEN conjunct2, THEN conjunct2, THEN conjunct2, THEN conjunct2, THEN conjunct2,
      THEN conjunct1, THEN mp, OF h6]
    T[THEN conjunct2, THEN conjunct2, THEN conjunct2, THEN conjunct2, THEN conjunct2,
      THEN conjunct2, THEN mp, OF h7]
  show ?thesis by simp
qed

text \<open>
  C10 (numeric segments out of the domain). A segment that \<^verbatim>\<open>strconv.Atoi\<close> parses to a
  number that no record matches is answered with the structured 404: code 40403 by the
  id lookup, code 40401 by the subject+version lookup, never the 500 with code 50001.
  In a store reached from the zero value no record has an id or a version below 1, so
  zero and every negative number are such segments.
\<close>

theorem numeric_segment_not_found:
  "(Method r = ''GET'' \<and> index (Split (EscapedPath r) CHR ''/'') 3 = Some tok \<and> Atoi tok = Inr n \<and>
    (\<forall>x \<in> set (schemas fr). ID x \<noteq> n)
      \<longrightarrow> schemaByID lib fr r =
            Some (\<lparr>status = 404, body = JSONBody (JObject [(''error_code'', JNumber 40403),
                     (''message'', JErrorText (New ''schema not found''))])\<rparr>, init fr)) \<and>
   (Method r = ''GET'' \<and> index (Split (EscapedPath r) CHR ''/'') 4 = Some tok \<and> Atoi tok = Inr n \<and>
    index (Split (EscapedPath r) CHR ''/'') 2 = Some subject \<and>
    (\<forall>x \<in> set (schemas fr). Subject x = subject \<longrightarrow> Version x \<noteq> n)
      \<longrightarrow> schemaBySubjectVersion lib fr r =
            Some (\<lparr>status = 404, body = JSONBody (JObject [(''error_code'', JNumber 40401),
                     (''message'', JErrorText (New ''subject not found''))])\<rparr>, init fr)) \<and>
   (n \<le> 0 \<longrightarrow> (\<forall>x \<in> set (schemas (run Rabin calls)). ID x \<noteq> n \<and> Version x \<noteq> n))"
proof (intro conjI impI)
  assume "Method r = ''GET'' \<and> index (Split (EscapedPath r) CHR ''/'') 3 = Some tok \<and>
    Atoi tok = Inr n \<and> (\<forall>x \<in> set (schemas fr). ID x \<noteq> n)"
  then show "schemaByID lib fr r =
            Some (\<lparr>status = 404, body = JSONBody (JObject [(''error_code'', JNumber 40403),
                     (''message'', JErrorText (New ''schema not found''))])\<rparr>, init fr)"
    using schemaByID_lookup_none[of r tok n fr lib] SchemaByID_none[of fr n] by simp
next
  assume "Method r = ''GET'' \<and> index (Split (EscapedPath r) CHR ''/'') 4 = Some tok \<and>
    Atoi tok = Inr n \<and> index (Split (EscapedPath r) CHR ''/'') 2 = Some subject \<and>
    (\<forall>x \<in> set (schemas fr). Subject x = subject \<longrightarrow> Version x \<noteq> n)"
  then show "schemaBySubjectVersion lib fr r =
            Some (\<lparr>status = 404, body = JSONBody (JObject [(''error_code'', JNumber 40401),
                     (''message'', JErrorText (New ''subject not found''))])\<rparr>, init fr)"
    using schemaBySubjectVersion_lookup_none[of r tok n subject fr lib]
      SchemaBySubjectVersion_none[of fr subject n] by simp
next
  assume n: "n \<le> 0"
  show "\<forall>x \<in> set (schemas (run Rabin calls)). ID x \<noteq> n \<and> Version x \<noteq> n"
  proof
    fix x assume x: "x \<in> set (schemas (run Rabin calls))"
    have "1 \<le> ID x" using store_inv_ids_le[OF store_inv_run x] by simp
    moreover have "1 \<le> Version x" using store_inv_version_ge[OF store_inv_run x] .
    ultimately show "ID x \<noteq> n \<and> Version x \<noteq> n" using n by auto
  qed
qed

theorem numeric_segment_not_found_witness:
  "schemaByID sampleLib (run sampleRabin [CallCreateSchema ''foo'' stringSchema])
      \<lparr>Method = ''GET'', EscapedPath = ''/schemas/ids/-5'', Body = Inl (LibError ''EOF'')\<rparr> =
     Some (\<lparr>status = 404, body = JSONBody (JObject [(''error_code'', JNumber 40403),
              (''message'', JErrorText (New ''schema not found''))])\<rparr>,
           init (run sampleRabin [CallCreateSchema ''foo'' stringSchema])) \<and>
   schemaBySubjectVersion sampleLib (run sampleRabin [CallCreateSchema ''foo'' stringSchema])
      \<lparr>Method = ''GET'', EscapedPath = ''/subjects/foo/versions/0'', Body = Inl (LibError ''EOF'')\<rparr> =
     Some (\<lparr>status = 404, body = JSONBody (JObject [(''error_code'', JNumber 40401),
              (''message'', JErrorText (New ''subject not found''))])\<rparr>,
           init (run sampleRabin [CallCreateSchema ''foo'' stringSchema]))"
proof -
  let ?fr = "run sampleRabin [CallCreateSchema ''foo'' stringSchema]"
  let ?r1 = "\<lparr>Method = ''GET'', EscapedPath = ''/schemas/ids/-5'', Body = Inl (LibError ''EOF'')\<rparr>"
  let ?r2 = "\<lparr>Method = ''GET'', EscapedPath = ''/subjects/foo/versions/0'', Body = Inl (LibError ''EOF'')\<rparr>"
  have neg: "\<forall>x \<in> set (schemas ?fr). ID x \<noteq> - 5 \<and> Version x \<noteq> - 5"
    using numeric_segment_not_found[of _ _ "- 5" _ _ _ sampleRabin "[CallCreateSchema ''foo'' stringSchema]",
        THEN conjunct2, THEN conjunct2] by simp
  have zero: "\<forall>x \<in> set (schemas ?fr). ID x \<noteq> 0 \<and> Version x \<noteq> 0"
    using numeric_segment_not_found[of _ _ 0 _ _ _ sampleRabin "[CallCreateSchema ''foo'' stringSchema]",
        THEN conjunct2, THEN conjunct2] by simp
  have h1: "Method ?r1 = ''GET'' \<and> index (Split (EscapedPath ?r1) CHR ''/'') 3 = Some ''-5'' \<and>
      Atoi ''-5'' = Inr (- 5) \<and> (\<forall>x \<in> set (schemas ?fr). ID x \<noteq> - 5)"
    using neg by (simp add: index_def Atoi_minus5)
  have h2: "Method ?r2 = ''GET'' \<and> index (Split (EscapedPath ?r2) CHR ''/'') 4 = Some ''0'' \<and>
      Atoi ''0'' = Inr 0 \<and> index (Split (EscapedPath ?r2) CHR ''/'') 2 = Some ''foo'' \<and>
      (\<forall>x \<in> set (schemas ?fr). Subject x = ''foo'' \<longrightarrow> Version x \<noteq> 0)"
    using zero by (simp add: index_def Atoi_0)
  from numeric_segment_not_found[THEN conjunct1, THEN mp, OF h1]
       numeric_segment_not_found[THEN conjunct2, THEN conjunct1, THEN mp, OF h2]
  show ?thesis by blast
qed

end
